theory Spec2Isabelle
  imports Main "HOL-Library.Sublist"
begin

section \<open>Errors and JavaScript strings\<close>

text \<open>
  A thrown JavaScript \<^verbatim>\<open>Error\<close> is a value carrying its message. A function
  of the source that can throw returns \<open>error + 'a\<close>, with \<open>Inl\<close> for the throw.

  A JavaScript string is modelled as a \<open>string\<close>; one \<open>char\<close> stands for one code unit,
  so \<open>length\<close> is \<^verbatim>\<open>.length\<close> and \<open>take 72\<close> is \<^verbatim>\<open>.substring(0, 72)\<close>.
\<close>

datatype error = Error string

definition sq :: char where
  "sq = CHR 0x27"

definition dq :: char where
  "dq = CHR 0x22"

definition bslash :: char where
  "bslash = CHR 0x5C"

definition nl :: char where
  "nl = CHR 0x0A"

text \<open>\<^verbatim>\<open>s.replace(/c/g, rep)\<close> for a one-character pattern.\<close>

definition replace_all :: "char \<Rightarrow> string \<Rightarrow> string \<Rightarrow> string" where
  "replace_all c rep s = concat (map (\<lambda>x. if x = c then rep else [x]) s)"

text \<open>
  The classes \<^verbatim>\<open>\s\<close> (white space and line terminators, also what \<^verbatim>\<open>trim()\<close>
  strips) and the line terminators that \<^verbatim>\<open>.\<close> does not match, on the code units a
  \<open>char\<close> can hold.
\<close>

definition is_space :: "char \<Rightarrow> bool" where
  "is_space c = (c = CHR 0x09 \<or> c = CHR 0x0A \<or> c = CHR 0x0B \<or> c = CHR 0x0C
     \<or> c = CHR 0x0D \<or> c = CHR 0x20 \<or> c = CHR 0xA0)"

definition is_line_terminator :: "char \<Rightarrow> bool" where
  "is_line_terminator c = (c = CHR 0x0A \<or> c = CHR 0x0D)"

definition trim :: "string \<Rightarrow> string" where
  "trim s = rev (dropWhile is_space (rev (dropWhile is_space s)))"

text \<open>
  \<^verbatim>\<open>s.split(/[...]/)\<close> for a character class: the segments between the separators,
  in order. The result of the source's \<^verbatim>\<open>split\<close> is indexed with \<^verbatim>\<open>[0]\<close>.
\<close>

fun split_on :: "(char \<Rightarrow> bool) \<Rightarrow> string \<Rightarrow> string list" where
  "split_on P [] = [[]]"
| "split_on P (c # cs) =
     (if P c then [] # split_on P cs
      else (case split_on P cs of
              [] \<Rightarrow> [[c]]
            | seg # segs \<Rightarrow> (c # seg) # segs))"

text \<open>Template literals print a number in decimal.\<close>

definition digit_char :: "nat \<Rightarrow> char" where
  "digit_char d = ''0123456789'' ! d"

fun show_nat :: "nat \<Rightarrow> string" where
  "show_nat n = (if n < 10 then [digit_char n] else show_nat (n div 10) @ [digit_char (n mod 10)])"

definition is_digit :: "char \<Rightarrow> bool" where
  "is_digit c = (c \<in> set ''0123456789'')"

section \<open>parseRepo (git service)\<close>

text \<open>
  \<^verbatim>\<open>remote.match(/github\.com[:/]([^/]+\/[^/.]+)/)\<close>.

  \<open>match_owner_name\<close> is the capture group \<^verbatim>\<open>([^/]+\/[^/.]+)\<close> anchored at the
  start of its argument: \<^verbatim>\<open>[^/]+\<close> is greedy and cannot cross a slash, so it takes
  the whole run up to the first slash, which must be there and must not come first;
  \<^verbatim>\<open>[^/.]+\<close> then takes the longest run free of slashes and dots, at least one
  character. \<open>match_repo_at\<close> is the whole expression anchored at the start of its
  argument. \<open>match_repo\<close> tries the start positions from the left, as the regular
  expression engine does.
\<close>

definition match_owner_name :: "string \<Rightarrow> string option" where
  "match_owner_name r =
     (let owner = takeWhile (\<lambda>x. x \<noteq> CHR ''/'') r;
          after = dropWhile (\<lambda>x. x \<noteq> CHR ''/'') r;
          name = takeWhile (\<lambda>x. x \<noteq> CHR ''/'' \<and> x \<noteq> CHR ''.'') (drop 1 after)
      in if owner = [] \<or> after = [] \<or> name = [] then None
         else Some (owner @ ''/'' @ name))"

definition match_repo_at :: "string \<Rightarrow> string option" where
  "match_repo_at s =
     (if prefix ''github.com'' s then
        (case drop (length ''github.com'') s of
           [] \<Rightarrow> None
         | c # r \<Rightarrow> if c = CHR '':'' \<or> c = CHR ''/'' then match_owner_name r else None)
      else None)"

fun match_repo :: "string \<Rightarrow> string option" where
  "match_repo [] = match_repo_at []"
| "match_repo (c # cs) =
     (case match_repo_at (c # cs) of
        Some g \<Rightarrow> Some g
      | None \<Rightarrow> match_repo cs)"

text \<open>\<^verbatim>\<open>.replace(/\.git$/, '')\<close>\<close>

definition replace_git_suffix :: "string \<Rightarrow> string" where
  "replace_git_suffix s = (if suffix ''.git'' s then take (length s - 4) s else s)"

definition parseRepo :: "string \<Rightarrow> error + string" where
  "parseRepo remote =
     (case match_repo remote of
        None \<Rightarrow> Inl (Error (''Invalid GitHub remote: '' @ remote))
      | Some g \<Rightarrow> Inr (replace_git_suffix g))"

text \<open>
  The language of the regular expression, stated without reference to how the engine
  searches: the remote has somewhere the host \<^verbatim>\<open>github.com\<close>, a colon or a slash, a
  non-empty owner free of slashes, a slash, and a non-empty name free of slashes and
  dots.
\<close>

definition recognized_remote :: "string \<Rightarrow> bool" where
  "recognized_remote remote =
     (\<exists>pre c owner name rest.
        remote = pre @ ''github.com'' @ [c] @ owner @ ''/'' @ name @ rest
        \<and> (c = CHR '':'' \<or> c = CHR ''/'')
        \<and> owner \<noteq> [] \<and> CHR ''/'' \<notin> set owner
        \<and> name \<noteq> [] \<and> CHR ''/'' \<notin> set name \<and> CHR ''.'' \<notin> set name)"

section \<open>ClaudeService.generateMetadata\<close>

record ClaudeMetadata =
  branchName :: string
  title :: string
  body :: string

text \<open>
  \<^verbatim>\<open>output.match(/LABEL:\s*(.+)/)\<close>, the capture group.

  After the label, \<^verbatim>\<open>\s*\<close> first takes the whole run of white space, \<open>k\<close>
  characters, and \<^verbatim>\<open>(.+)\<close> needs a character that is not a line terminator at the
  position reached; when there is none the engine backtracks, giving back one white-space
  character at a time. \<open>capture_from k r\<close> tries the positions \<open>k\<close>, \<open>k - 1\<close>, ...,
  \<open>0\<close> in that order; the group is the longest run without a line terminator from the
  first position that works.
\<close>

fun capture_from :: "nat \<Rightarrow> string \<Rightarrow> string option" where
  "capture_from k r =
     (if k < length r \<and> \<not> is_line_terminator (r ! k)
      then Some (takeWhile (\<lambda>c. \<not> is_line_terminator c) (drop k r))
      else (case k of 0 \<Rightarrow> None | Suc j \<Rightarrow> capture_from j r))"

definition capture_after_label :: "string \<Rightarrow> string option" where
  "capture_after_label r = capture_from (length (takeWhile is_space r)) r"

fun match_field :: "string \<Rightarrow> string \<Rightarrow> string option" where
  "match_field label [] = None"
| "match_field label (c # cs) =
     (if prefix label (c # cs) then
        (case capture_after_label (drop (length label) (c # cs)) of
           Some g \<Rightarrow> Some g
         | None \<Rightarrow> match_field label cs)
      else match_field label cs)"

text \<open>
  The body of the \<^verbatim>\<open>try\<close> block after \<^verbatim>\<open>execSync\<close> has returned the
  assistant's output: the three matches, the throw when one is missing, the returned
  metadata.
\<close>

definition parse_response :: "string \<Rightarrow> error + ClaudeMetadata" where
  "parse_response output =
     (case (match_field ''BRANCH:'' output, match_field ''TITLE:'' output,
            match_field ''BODY:'' output) of
        (Some branchMatch, Some titleMatch, Some bodyMatch) \<Rightarrow>
          Inr \<lparr> branchName = trim branchMatch,
                title = take 72 (trim titleMatch),
                body = trim bodyMatch \<rparr>
      | _ \<Rightarrow> Inl (Error ''Failed to parse Claude response''))"

text \<open>
  The \<^verbatim>\<open>catch\<close> block. \<^verbatim>\<open>prompt.split(/[.!?\n]/)[0]\<close> is \<^verbatim>\<open>undefined\<close> when the
  array is empty, and \<^verbatim>\<open>undefined.trim()\<close> throws a TypeError: the model keeps that
  branch. \<open>now\<close> is \<^verbatim>\<open>Date.now()\<close>.
\<close>

definition is_sentence_end :: "char \<Rightarrow> bool" where
  "is_sentence_end c = (c = CHR ''.'' \<or> c = CHR ''!'' \<or> c = CHR ''?'' \<or> c = nl)"

definition fallback_metadata :: "string \<Rightarrow> nat \<Rightarrow> error + ClaudeMetadata" where
  "fallback_metadata prompt now =
     (case split_on is_sentence_end prompt of
        [] \<Rightarrow> Inl (Error ''TypeError: Cannot read properties of undefined'')
      | seg # segs \<Rightarrow>
          Inr \<lparr> branchName = ''ad/feat/task-'' @ show_nat now,
                title = take 72 (''feat: '' @ trim seg),
                body = ''Working on: '' @ prompt \<rparr>)"

text \<open>
  \<open>assistant\<close> is the outcome of \<^verbatim>\<open>execSync(`claude -p ...`)\<close>: the text the
  assistant printed, or the error of a failed or timed-out invocation. Whatever the
  \<^verbatim>\<open>try\<close> block throws is caught, and the \<^verbatim>\<open>catch\<close> block runs.
\<close>

definition generateMetadata :: "(error + string) \<Rightarrow> string \<Rightarrow> nat \<Rightarrow> error + ClaudeMetadata" where
  "generateMetadata assistant prompt now =
     (case (case assistant of
              Inl e \<Rightarrow> Inl e
            | Inr output \<Rightarrow> parse_response output) of
        Inr metadata \<Rightarrow> Inr metadata
      | Inl e \<Rightarrow> fallback_metadata prompt now)"

text \<open>The condition under which the \<^verbatim>\<open>catch\<close> block runs.\<close>

definition assistant_failed :: "(error + string) \<Rightarrow> bool" where
  "assistant_failed assistant =
     (case assistant of
        Inl e \<Rightarrow> True
      | Inr output \<Rightarrow>
          match_field ''BRANCH:'' output = None \<or> match_field ''TITLE:'' output = None
          \<or> match_field ''BODY:'' output = None)"

section \<open>Domain model\<close>

text \<open>
  The interfaces of the source as records. Where two interfaces have a field of the same
  name, the later record's field carries a prefix. A \<^verbatim>\<open>Date\<close> is its time value in
  milliseconds.
\<close>

record TmuxSession =
  session_id :: string
  workingDir :: string
  created :: int
  attached :: bool

record GitInfo =
  remote :: string
  repo :: string
  branch :: string
  isDirty :: bool
  ahead :: nat
  behind :: nat

datatype pr_state = OPEN | CLOSED | MERGED

record PullRequest =
  number :: nat
  pr_title :: string
  pr_branch :: string
  baseBranch :: string
  pr_repo :: string
  state :: pr_state
  url :: string
  author :: string
  isDraft :: bool
  pr_created :: int
  updated :: int

record Config =
  cfg_repo :: string
  repoName :: string
  clonesDir :: string
  cfg_baseBranch :: string
  sessionPrefix :: string
  branchFormat :: "string option"
  commitFormat :: "string option"

text \<open>An optional string is truthy when it is present and not empty.\<close>

definition truthy :: "string option \<Rightarrow> bool" where
  "truthy s = (case s of None \<Rightarrow> False | Some v \<Rightarrow> v \<noteq> [])"

section \<open>The outside world of the orchestrator\<close>

text \<open>
  The workflows act on three external systems through the services' methods. The world
  records which sessions and which directories exist, and the \<open>trace\<close> of every method
  called on a port, in order: a step that is not in the trace was not attempted.
  The \<open>env\<close> fixes how the external tools answer: which calls fail, and with which
  error.
\<close>

datatype action =
    GetPR string nat
  | ClosePR string nat
  | TmuxExists string
  | TmuxKill string
  | TmuxCreate string string
  | TmuxSendKeys string string
  | ExistsSync string
  | MkdirSync string
  | RmSync string
  | GitClone string string string

record world =
  sessions :: "string set"
  dirs :: "string set"
  trace :: "action list"

record env =
  getPR_result :: "string \<Rightarrow> nat \<Rightarrow> PullRequest option"
  closePR_error :: "string \<Rightarrow> nat \<Rightarrow> error option"
  kill_error :: "string \<Rightarrow> error option"
  create_result :: "string \<Rightarrow> string \<Rightarrow> error + TmuxSession"
  exec_error :: "string \<Rightarrow> error option"
  rm_error :: "string \<Rightarrow> error option"
  mkdir_error :: "string \<Rightarrow> error option"
  clone_error :: "string \<Rightarrow> string \<Rightarrow> string \<Rightarrow> error option"
  join :: "string \<Rightarrow> string \<Rightarrow> string"

type_synonym 'a io = "world \<Rightarrow> (error + 'a) \<times> world"

definition io_return :: "'a \<Rightarrow> 'a io" where
  "io_return x w = (Inr x, w)"

definition io_throw :: "error \<Rightarrow> 'a io" where
  "io_throw e w = (Inl e, w)"

text \<open>Sequencing of awaited calls: a throw ends the sequence, the world stays as it is.\<close>

definition io_bind :: "'a io \<Rightarrow> ('a \<Rightarrow> 'b io) \<Rightarrow> 'b io" where
  "io_bind m f w = (case m w of (Inl e, w') \<Rightarrow> (Inl e, w') | (Inr x, w') \<Rightarrow> f x w')"

definition log :: "action \<Rightarrow> world \<Rightarrow> world" where
  "log a w = w\<lparr> trace := trace w @ [a] \<rparr>"

text \<open>A call that only fails or succeeds, with its effect on the world when it succeeds.\<close>

definition port_call :: "action \<Rightarrow> error option \<Rightarrow> (world \<Rightarrow> world) \<Rightarrow> unit io" where
  "port_call a failure effect w =
     (case failure of
        Some e \<Rightarrow> (Inl e, log a w)
      | None \<Rightarrow> (Inr (), effect (log a w)))"

text \<open>GitHubService: \<^verbatim>\<open>getPR\<close> returns null instead of throwing; \<^verbatim>\<open>closePR\<close> throws.\<close>

definition github_getPR :: "env \<Rightarrow> string \<Rightarrow> nat \<Rightarrow> PullRequest option io" where
  "github_getPR e r n w = (Inr (getPR_result e r n), log (GetPR r n) w)"

definition github_closePR :: "env \<Rightarrow> string \<Rightarrow> nat \<Rightarrow> unit io" where
  "github_closePR e r n = port_call (ClosePR r n) (closePR_error e r n) (\<lambda>w. w)"

text \<open>TmuxService: \<^verbatim>\<open>exists\<close> catches every error and answers false.\<close>

definition tmux_exists :: "string \<Rightarrow> bool io" where
  "tmux_exists i w = (Inr (i \<in> sessions w), log (TmuxExists i) w)"

definition tmux_kill :: "env \<Rightarrow> string \<Rightarrow> unit io" where
  "tmux_kill e i = port_call (TmuxKill i) (kill_error e i) (\<lambda>w. w\<lparr> sessions := sessions w - {i} \<rparr>)"

definition tmux_create :: "env \<Rightarrow> string \<Rightarrow> string \<Rightarrow> TmuxSession io" where
  "tmux_create e i d w =
     (case create_result e i d of
        Inl err \<Rightarrow> (Inl err, log (TmuxCreate i d) w)
      | Inr s \<Rightarrow> (Inr s, (log (TmuxCreate i d) w)\<lparr> sessions := insert i (sessions w) \<rparr>))"

text \<open>
  \<^verbatim>\<open>sendKeys\<close>: the keys with every double quote escaped, inside the command line given
  to \<^verbatim>\<open>execSync\<close>.
\<close>

definition sendKeys_command :: "string \<Rightarrow> string \<Rightarrow> string" where
  "sendKeys_command i keys =
     ''tmux send-keys -t '' @ [dq] @ i @ [dq] @ '' '' @ [dq]
       @ replace_all dq [bslash, dq] keys @ [dq] @ '' Enter''"

definition tmux_sendKeys :: "env \<Rightarrow> string \<Rightarrow> string \<Rightarrow> unit io" where
  "tmux_sendKeys e i keys =
     port_call (TmuxSendKeys i keys) (exec_error e (sendKeys_command i keys)) (\<lambda>w. w)"

text \<open>The file system and git.\<close>

definition existsSync :: "string \<Rightarrow> bool io" where
  "existsSync p w = (Inr (p \<in> dirs w), log (ExistsSync p) w)"

definition mkdirSync :: "env \<Rightarrow> string \<Rightarrow> unit io" where
  "mkdirSync e p = port_call (MkdirSync p) (mkdir_error e p) (\<lambda>w. w\<lparr> dirs := insert p (dirs w) \<rparr>)"

definition rmSync :: "env \<Rightarrow> string \<Rightarrow> unit io" where
  "rmSync e p =
     port_call (RmSync p) (rm_error e p)
       (\<lambda>w. w\<lparr> dirs := {q \<in> dirs w. q \<noteq> p \<and> \<not> prefix (p @ ''/'') q} \<rparr>)"

definition git_clone :: "env \<Rightarrow> string \<Rightarrow> string \<Rightarrow> string \<Rightarrow> unit io" where
  "git_clone e u p b =
     port_call (GitClone u p b) (clone_error e u p b) (\<lambda>w. w\<lparr> dirs := insert p (dirs w) \<rparr>)"

section \<open>ClaudeHandoverService\<close>

record HandoverContext =
  prNumber :: nat
  ctx_branch :: string
  ctx_baseBranch :: string
  userPrompt :: string
  guidelines :: "string option"
  skipPermissions :: bool

text \<open>The two templates of the source, line by line.\<close>

definition buildContext :: "HandoverContext \<Rightarrow> string" where
  "buildContext c =
     ''I'' @ [sq] @ ''m working on PR #'' @ show_nat (prNumber c) @ '' ('' @ ctx_branch c
       @ '' -> '' @ ctx_baseBranch c @ '').'' @ [nl]
     @ [nl]
     @ ''User'' @ [sq] @ ''s request: '' @ userPrompt c @ [nl]
     @ [nl]
     @ (if truthy (guidelines c) then ''Project guidelines:'' @ [nl] @ the (guidelines c) @ [nl]
        else [])
     @ [nl]
     @ [nl]
     @ ''Please help me implement this. Start by:'' @ [nl]
     @ ''1. Updating the PR title and description if needed'' @ [nl]
     @ ''2. Understanding the codebase context'' @ [nl]
     @ ''3. Implementing the requested changes'' @ [nl]
     @ [nl]
     @ ''Let me know when you'' @ [sq] @ ''re ready to start!''"

definition buildContext_skip :: "HandoverContext \<Rightarrow> string" where
  "buildContext_skip c =
     ''Working on PR #'' @ show_nat (prNumber c) @ [nl]
     @ ''Branch: '' @ ctx_branch c @ '' -> '' @ ctx_baseBranch c @ [nl]
     @ [nl]
     @ ''Task: '' @ userPrompt c @ [nl]
     @ [nl]
     @ (if truthy (guidelines c) then ''Guidelines:'' @ [nl] @ the (guidelines c) @ [nl]
        else [])
     @ ''You'' @ [sq] @ ''re in the PR'' @ [sq]
     @ ''s git repo. Implement the task following these steps:'' @ [nl]
     @ ''1. Read relevant files to understand the codebase'' @ [nl]
     @ ''2. Implement the changes'' @ [nl]
     @ ''3. Test your changes'' @ [nl]
     @ ''4. Commit with a clear message'' @ [nl]
     @ [nl]
     @ ''Focus on correctness and incremental progress. Let'' @ [sq] @ ''s build this.''"

text \<open>\<^verbatim>\<open>fullContext.replace(/'/g, "'\\''")\<close>: quote, backslash, quote, quote.\<close>

definition escapePrompt :: "string \<Rightarrow> string" where
  "escapePrompt fullContext = replace_all sq [sq, bslash, sq, sq] fullContext"

definition claudeCommand :: "HandoverContext \<Rightarrow> string" where
  "claudeCommand c = ''claude '' @ [sq] @ escapePrompt (buildContext c) @ [sq]"

definition claudeCommand_skip :: "HandoverContext \<Rightarrow> string" where
  "claudeCommand_skip c =
     ''claude '' @ [sq] @ escapePrompt (buildContext_skip c) @ [sq]
       @ (if skipPermissions c then '' --dangerously-skip-permissions'' else [])"

text \<open>\<open>initialize\<close> is the first class of the file, \<open>initialize_skip\<close> the second.\<close>

definition initialize :: "env \<Rightarrow> string \<Rightarrow> HandoverContext \<Rightarrow> unit io" where
  "initialize e sessionId c = tmux_sendKeys e sessionId (claudeCommand c)"

definition initialize_skip :: "env \<Rightarrow> string \<Rightarrow> HandoverContext \<Rightarrow> unit io" where
  "initialize_skip e sessionId c = tmux_sendKeys e sessionId (claudeCommand_skip c)"

section \<open>Shell quoting\<close>

text \<open>
  Two shells read what the handover sends, and both are outside the repository: the host's
  \<^verbatim>\<open>/bin/sh\<close>, which \<^verbatim>\<open>execSync\<close> runs on the command line that
  \<^verbatim>\<open>sendKeys\<close> builds, and the shell in the session, which reads the keys that tmux
  types. Their quoting rules are those of the POSIX shell command language: blanks
  separate words; between single quotes every character is literal and a single quote
  cannot occur; between double quotes a backslash makes the next character literal only
  when that character is a dollar sign, a backquote, a double quote or a backslash, and is
  kept otherwise; outside quotes a backslash makes the next character literal; a backslash
  before a newline is a line continuation and disappears, except between single quotes;
  quoted and unquoted parts that touch form one word.
  \<open>sh_words\<close> splits a line into its words by these rules. It gives \<open>None\<close> where the
  shell does not read the line as literal words: for an unterminated quote, for a trailing
  backslash, for a dollar sign or a backquote outside single quotes (the shell substitutes
  a parameter or runs a command there), and for the other characters whose meaning
  outside quotes needs more of the shell than quoting (operators, patterns, comments).

  \<open>sh_unquoted cur s\<close> reads \<open>s\<close> outside quotes; \<open>cur\<close> is the word in progress, if
  any. \<open>sh_quoted w s\<close> reads \<open>s\<close> inside single quotes and \<open>sh_dquoted w s\<close> inside
  double quotes, \<open>w\<close> being the word so far.
\<close>

definition sh_blank :: "char \<Rightarrow> bool" where
  "sh_blank c = (c = CHR '' '' \<or> c = CHR 0x09 \<or> c = nl)"

definition sh_special :: "char \<Rightarrow> bool" where
  "sh_special c = (c \<in> set ''|&;<>()$`*?[#~=%!{}'')"

definition dq_escapable :: "char \<Rightarrow> bool" where
  "dq_escapable c = (c = CHR ''$'' \<or> c = CHR ''`'' \<or> c = dq \<or> c = bslash)"

definition word_so_far :: "string option \<Rightarrow> string" where
  "word_so_far cur = (case cur of None \<Rightarrow> [] | Some w \<Rightarrow> w)"

fun sh_unquoted :: "string option \<Rightarrow> string \<Rightarrow> string list option"
  and sh_quoted :: "string \<Rightarrow> string \<Rightarrow> string list option"
  and sh_dquoted :: "string \<Rightarrow> string \<Rightarrow> string list option" where
  "sh_unquoted cur [] = Some (case cur of None \<Rightarrow> [] | Some w \<Rightarrow> [w])"
| "sh_unquoted cur (c # cs) =
     (if sh_blank c then
        (case cur of
           None \<Rightarrow> sh_unquoted None cs
         | Some w \<Rightarrow> map_option (Cons w) (sh_unquoted None cs))
      else if c = sq then sh_quoted (word_so_far cur) cs
      else if c = dq then sh_dquoted (word_so_far cur) cs
      else if c = bslash then
        (case cs of
           [] \<Rightarrow> None
         | d # ds \<Rightarrow> if d = nl then sh_unquoted cur ds
                     else sh_unquoted (Some (word_so_far cur @ [d])) ds)
      else if sh_special c then None
      else sh_unquoted (Some (word_so_far cur @ [c])) cs)"
| "sh_quoted w [] = None"
| "sh_quoted w (c # cs) =
     (if c = sq then sh_unquoted (Some w) cs else sh_quoted (w @ [c]) cs)"
| "sh_dquoted w [] = None"
| "sh_dquoted w (c # cs) =
     (if c = dq then sh_unquoted (Some w) cs
      else if c = bslash then
        (case cs of
           [] \<Rightarrow> None
         | d # ds \<Rightarrow> if d = nl then sh_dquoted w ds
                     else if dq_escapable d then sh_dquoted (w @ [d]) ds
                     else sh_dquoted (w @ [bslash, d]) ds)
      else if c = CHR ''$'' \<or> c = CHR ''`'' then None
      else sh_dquoted (w @ [c]) cs)"

definition sh_words :: "string \<Rightarrow> string list option" where
  "sh_words line = sh_unquoted None line"

text \<open>
  A handover context, and the two prompts the examples use: one with a parameter
  reference, one with two backslashes in a row.
\<close>

definition example_context :: "string \<Rightarrow> HandoverContext" where
  "example_context p =
     \<lparr> prNumber = 42, ctx_branch = ''ad/fix/login'', ctx_baseBranch = ''main'',
       userPrompt = p, guidelines = None, skipPermissions = False \<rparr>"

section \<open>GitService.getInfo and GitHubService.findPR\<close>

text \<open>
  The git commands are outside the repository: \<open>git_env\<close> gives what each of them
  answers in a directory. \<open>getInfo\<close> runs them in the order of the source and stops at the
  first throw; \<open>parseRepo\<close> is the function above. A directory answers the same way
  each time it is asked during one discovery pass.
\<close>

record git_env =
  getRemote :: "string \<Rightarrow> error + string"
  getBranch :: "string \<Rightarrow> error + string"
  getStatus :: "string \<Rightarrow> error + (bool \<times> nat \<times> nat)"

definition getInfo :: "git_env \<Rightarrow> string \<Rightarrow> error + GitInfo" where
  "getInfo g repoPath =
     (case getRemote g repoPath of
        Inl e \<Rightarrow> Inl e
      | Inr rem \<Rightarrow>
         (case parseRepo rem of
            Inl e \<Rightarrow> Inl e
          | Inr rp \<Rightarrow>
             (case getBranch g repoPath of
                Inl e \<Rightarrow> Inl e
              | Inr br \<Rightarrow>
                 (case getStatus g repoPath of
                    Inl e \<Rightarrow> Inl e
                  | Inr (d, a, b) \<Rightarrow>
                      Inr \<lparr> remote = rem, repo = rp, branch = br,
                            isDirty = d, ahead = a, behind = b \<rparr>))))"

text \<open>
  \<^verbatim>\<open>listPRs(repo, options)\<close> is the listing call of the review system: the requests in
  the order it returns them, or a throw.
\<close>

record ListOptions =
  opt_author :: "string option"
  opt_state :: "string option"

type_synonym listing = "string \<Rightarrow> ListOptions \<Rightarrow> error + PullRequest list"

definition open_only :: ListOptions where
  "open_only = \<lparr> opt_author = None, opt_state = Some ''open'' \<rparr>"

text \<open>\<^verbatim>\<open>prs.find(pr => pr.branch === params.branch) || null\<close>\<close>

definition findPR :: "listing \<Rightarrow> string \<Rightarrow> string \<Rightarrow> error + PullRequest option" where
  "findPR listPRs r b =
     (case listPRs r open_only of
        Inl e \<Rightarrow> Inl e
      | Inr prs \<Rightarrow> Inr (find (\<lambda>p. pr_branch p = b) prs))"

section \<open>DiscoveryService (bulk discovery)\<close>

record SessionState =
  session :: TmuxSession
  gitInfo :: "GitInfo option"
  pr :: "PullRequest option"
  hasGit :: bool
  hasPR :: bool
  isActive :: bool

text \<open>\<^verbatim>\<open>Promise.all\<close>: rejects when one of the promises rejects, else all the values.\<close>

fun promise_all :: "(error + 'a) list \<Rightarrow> error + 'a list" where
  "promise_all [] = Inr []"
| "promise_all (Inl e # ps) = Inl e"
| "promise_all (Inr x # ps) = (case promise_all ps of Inl e \<Rightarrow> Inl e | Inr xs \<Rightarrow> Inr (x # xs))"

text \<open>
  The \<^verbatim>\<open>Set\<close> of repositories keeps its elements in insertion order, each once;
  \<^verbatim>\<open>Array.from(repos)\<close> is that order.
\<close>

definition set_add :: "string \<Rightarrow> string list \<Rightarrow> string list" where
  "set_add x xs = (if x \<in> set xs then xs else xs @ [x])"

fun collect_repos :: "git_env \<Rightarrow> TmuxSession list \<Rightarrow> string list \<Rightarrow> string list" where
  "collect_repos g [] repos = repos"
| "collect_repos g (s # ss) repos =
     collect_repos g ss
       (case getInfo g (workingDir s) of
          Inr info \<Rightarrow> set_add (repo info) repos
        | Inl e \<Rightarrow> repos)"

text \<open>The loop that fills \<^verbatim>\<open>branchMap\<close>: a branch that has an entry keeps it.\<close>

fun add_prs :: "PullRequest list \<Rightarrow> (string \<rightharpoonup> PullRequest) \<Rightarrow> (string \<rightharpoonup> PullRequest)" where
  "add_prs [] branchMap = branchMap"
| "add_prs (p # ps) branchMap =
     add_prs ps (if branchMap (pr_branch p) \<noteq> None then branchMap
                 else branchMap(pr_branch p \<mapsto> p))"

text \<open>
  The state the closures of the bulk fetch share: \<^verbatim>\<open>prMap\<close>, and the log of the
  \<^verbatim>\<open>listPRs\<close> calls issued. A closure calls \<^verbatim>\<open>listPRs\<close> once; its
  \<^verbatim>\<open>try\<close>/\<^verbatim>\<open>catch\<close> encloses its whole body, so a failed listing leaves
  \<^verbatim>\<open>prMap\<close> as it is and the closure still fulfils. The closures write to distinct
  keys of \<^verbatim>\<open>prMap\<close>, so running them one after the other in the order of the array
  gives the map any interleaving gives.
\<close>

record fetch_state =
  prMap :: "string \<rightharpoonup> (string \<rightharpoonup> PullRequest)"
  calls :: "(string \<times> ListOptions) list"

definition fetch_repo :: "listing \<Rightarrow> string \<Rightarrow> fetch_state \<Rightarrow> (error + unit) \<times> fetch_state" where
  "fetch_repo listPRs r st =
     (case listPRs r open_only of
        Inr prs \<Rightarrow>
          (Inr (), st\<lparr> prMap := (prMap st)(r \<mapsto> add_prs prs Map.empty),
                        calls := calls st @ [(r, open_only)] \<rparr>)
      | Inl e \<Rightarrow> (Inr (), st\<lparr> calls := calls st @ [(r, open_only)] \<rparr>))"

fun fetch_all :: "listing \<Rightarrow> string list \<Rightarrow> fetch_state \<Rightarrow> (error + unit) list \<times> fetch_state" where
  "fetch_all listPRs [] st = ([], st)"
| "fetch_all listPRs (r # rs) st =
     (case fetch_repo listPRs r st of
        (res, st') \<Rightarrow>
          (case fetch_all listPRs rs st' of
             (ress, st'') \<Rightarrow> (res # ress, st'')))"

text \<open>
  \<open>discoverOneWithCache\<close>: the inner \<^verbatim>\<open>try\<close> around \<^verbatim>\<open>getInfo\<close>, the lookup in
  the prebuilt map, and the outer \<^verbatim>\<open>try\<close> whose \<^verbatim>\<open>catch\<close> returns null.
\<close>

definition lookup_pr :: "(string \<rightharpoonup> (string \<rightharpoonup> PullRequest)) \<Rightarrow> GitInfo option \<Rightarrow> PullRequest option" where
  "lookup_pr m g =
     (case g of
        None \<Rightarrow> None
      | Some info \<Rightarrow>
         (case m (repo info) of
            None \<Rightarrow> None
          | Some branchMap \<Rightarrow> branchMap (branch info)))"

definition discoverOneWithCache ::
  "git_env \<Rightarrow> TmuxSession \<Rightarrow> (string \<rightharpoonup> (string \<rightharpoonup> PullRequest)) \<Rightarrow> error + SessionState option" where
  "discoverOneWithCache g s m =
     (case (let (info, has) = (case getInfo g (workingDir s) of
                                 Inr i \<Rightarrow> (Some i, True)
                               | Inl e \<Rightarrow> (None, False));
                p = lookup_pr m info
            in Inr \<lparr> session = s, gitInfo = info, pr = p, hasGit = has,
                     hasPR = (p \<noteq> None), isActive = attached s \<rparr>) of
        Inr st \<Rightarrow> Inr (Some st)
      | Inl (e :: error) \<Rightarrow> Inr None)"

definition non_null :: "'a option list \<Rightarrow> 'a list" where
  "non_null xs = map the (filter (\<lambda>x. x \<noteq> None) xs)"

text \<open>
  \<open>discover\<close>: \<open>tmux_list\<close> is \<^verbatim>\<open>tmux.list\<close>, which catches its errors and returns
  a list. The result is what the call returns or throws, with the log of the
  \<^verbatim>\<open>listPRs\<close> calls it issued.
\<close>

definition discover ::
  "(string \<Rightarrow> TmuxSession list) \<Rightarrow> git_env \<Rightarrow> listing
     \<Rightarrow> (error + SessionState list) \<times> (string \<times> ListOptions) list" where
  "discover tmux_list g listPRs =
     (let ss = tmux_list [];
          repos = collect_repos g ss [];
          (fetched, st) = fetch_all listPRs repos \<lparr> prMap = Map.empty, calls = [] \<rparr>
      in (case promise_all fetched of
            Inl e \<Rightarrow> (Inl e, calls st)
          | Inr fulfilled \<Rightarrow>
             (case promise_all (map (\<lambda>s. discoverOneWithCache g s (prMap st)) ss) of
                Inl e \<Rightarrow> (Inl e, calls st)
              | Inr states \<Rightarrow> (Inr (non_null states), calls st))))"

section \<open>SessionDiscoveryService (one lookup per session)\<close>

record DiscoveredSession =
  ds_session :: TmuxSession
  ds_workingDir :: string
  ds_gitInfo :: "GitInfo option"
  ds_pr :: "PullRequest option"
  hasValidGit :: bool
  ds_hasPR :: bool
  ds_isActive :: bool

definition discoverSession :: "git_env \<Rightarrow> listing \<Rightarrow> TmuxSession \<Rightarrow> error + DiscoveredSession option" where
  "discoverSession g listPRs s =
     (case (let (info, valid) = (case getInfo g (workingDir s) of
                                   Inr i \<Rightarrow> (Some i, True)
                                 | Inl e \<Rightarrow> (None, False));
                p = (case info of
                       None \<Rightarrow> None
                     | Some i \<Rightarrow>
                        (case findPR listPRs (repo i) (branch i) of
                           Inr found \<Rightarrow> found
                         | Inl e \<Rightarrow> None))
            in Inr \<lparr> ds_session = \<lparr> session_id = session_id s, workingDir = workingDir s,
                                     created = created s, attached = attached s \<rparr>,
                     ds_workingDir = workingDir s, ds_gitInfo = info, ds_pr = p,
                     hasValidGit = valid, ds_hasPR = (p \<noteq> None),
                     ds_isActive = attached s \<rparr>) of
        Inr st \<Rightarrow> Inr (Some st)
      | Inl (e :: error) \<Rightarrow> Inr None)"

definition discover_sessions ::
  "(string \<Rightarrow> TmuxSession list) \<Rightarrow> git_env \<Rightarrow> listing \<Rightarrow> error + DiscoveredSession list" where
  "discover_sessions tmux_list g listPRs =
     (case promise_all (map (discoverSession g listPRs) (tmux_list [])) of
        Inl e \<Rightarrow> Inl e
      | Inr states \<Rightarrow> Inr (non_null states))"

text \<open>
  The repository identifiers that a list of sessions spans: those of the sessions whose
  directory gives a snapshot.
\<close>

definition repos_spanned :: "git_env \<Rightarrow> TmuxSession list \<Rightarrow> string set" where
  "repos_spanned g ss =
     set (concat (map (\<lambda>s. case getInfo g (workingDir s) of
                              Inr info \<Rightarrow> [repo info]
                            | Inl e \<Rightarrow> []) ss))"

text \<open>The map that the bulk fetch of \<open>discover\<close> has built when the second phase starts.\<close>

definition final_map ::
  "(string \<Rightarrow> TmuxSession list) \<Rightarrow> git_env \<Rightarrow> listing \<Rightarrow> (string \<rightharpoonup> (string \<rightharpoonup> PullRequest))" where
  "final_map tmux_list g listPRs =
     prMap (snd (fetch_all listPRs (collect_repos g (tmux_list []) [])
                   \<lparr> prMap = Map.empty, calls = [] \<rparr>))"

section \<open>PRService: setup of an existing request, teardown\<close>

text \<open>\<^verbatim>\<open>formatGuidelines\<close>: the parts that are set, joined by newlines.\<close>

definition formatGuidelines :: "Config \<Rightarrow> string" where
  "formatGuidelines cfg =
     (let parts = (if truthy (branchFormat cfg) then [''Branch format: '' @ the (branchFormat cfg)] else [])
                @ (if truthy (commitFormat cfg) then [''Commit format: '' @ the (commitFormat cfg)] else [])
      in (case parts of
            [] \<Rightarrow> []
          | [a] \<Rightarrow> a
          | a # b # rest \<Rightarrow> a @ [nl] @ b))"

definition clonePathOf :: "env \<Rightarrow> Config \<Rightarrow> nat \<Rightarrow> string" where
  "clonePathOf e cfg n = join e (clonesDir cfg) (''pr-'' @ show_nat n)"

definition sessionIdOf :: "Config \<Rightarrow> nat \<Rightarrow> string" where
  "sessionIdOf cfg n = sessionPrefix cfg @ show_nat n"

text \<open>
  \<open>setupExisting\<close>, statement by statement. The directory test and the session name use
  the number of the request that \<^verbatim>\<open>getPR\<close> returned.
\<close>

definition setupExisting :: "env \<Rightarrow> Config \<Rightarrow> nat \<Rightarrow> (PullRequest \<times> TmuxSession \<times> string) io" where
  "setupExisting e cfg n =
     io_bind (github_getPR e (repoName cfg) n) (\<lambda>found.
       case found of
         None \<Rightarrow> io_throw (Error (''PR #'' @ show_nat n @ '' not found''))
       | Some p \<Rightarrow>
          (let clonePath = clonePathOf e cfg (number p) in
           io_bind (existsSync clonePath) (\<lambda>there.
             if there then io_throw (Error (''Clone already exists at '' @ clonePath))
             else
               io_bind (existsSync (clonesDir cfg)) (\<lambda>root.
               io_bind (if \<not> root then mkdirSync e (clonesDir cfg) else io_return ()) (\<lambda>u1.
               io_bind (git_clone e (cfg_repo cfg) clonePath (pr_branch p)) (\<lambda>u2.
               io_bind (tmux_create e (sessionIdOf cfg (number p)) clonePath) (\<lambda>s.
               io_bind (initialize e (sessionIdOf cfg (number p))
                          \<lparr> prNumber = number p, ctx_branch = pr_branch p,
                            ctx_baseBranch = baseBranch p,
                            userPrompt = ''Continue working on: '' @ pr_title p,
                            guidelines = Some (formatGuidelines cfg),
                            skipPermissions = False \<rparr>) (\<lambda>u3.
               io_return (p, s, clonePath)))))))))"

text \<open>\<open>close\<close>, statement by statement.\<close>

definition close :: "env \<Rightarrow> Config \<Rightarrow> nat \<Rightarrow> unit io" where
  "close e cfg n =
     io_bind (github_closePR e (repoName cfg) n) (\<lambda>u1.
     io_bind (tmux_exists (sessionIdOf cfg n)) (\<lambda>running.
     io_bind (if running then tmux_kill e (sessionIdOf cfg n) else io_return ()) (\<lambda>u2.
     io_bind (existsSync (clonePathOf e cfg n)) (\<lambda>there.
       if there then rmSync e (clonePathOf e cfg n) else io_return ()))))"

text \<open>What the spec calls destructive or provisioning steps, as actions of the trace.\<close>

fun provisioning :: "action \<Rightarrow> bool" where
  "provisioning (RmSync p) = True"
| "provisioning (MkdirSync p) = True"
| "provisioning (GitClone u p b) = True"
| "provisioning (TmuxCreate i d) = True"
| "provisioning (TmuxSendKeys i k) = True"
| "provisioning (TmuxKill i) = True"
| "provisioning (ClosePR r n) = True"
| "provisioning (GetPR r n) = False"
| "provisioning (TmuxExists i) = False"
| "provisioning (ExistsSync p) = False"

text \<open>
  An environment in which every external call succeeds: \<open>found\<close> is what the review
  system knows, and the two parts of a path are joined by a slash.
\<close>

definition no_failures :: "(string \<Rightarrow> nat \<Rightarrow> PullRequest option) \<Rightarrow> env" where
  "no_failures found =
     \<lparr> getPR_result = found,
       closePR_error = (\<lambda>r n. None),
       kill_error = (\<lambda>i. None),
       create_result = (\<lambda>i d. Inr \<lparr> session_id = i, workingDir = d, created = 0, attached = False \<rparr>),
       exec_error = (\<lambda>c. None),
       rm_error = (\<lambda>p. None),
       mkdir_error = (\<lambda>p. None),
       clone_error = (\<lambda>u p b. None),
       join = (\<lambda>a b. a @ ''/'' @ b) \<rparr>"

text \<open>The actions a workflow added to the trace, and two small configurations.\<close>

definition steps_of :: "world \<Rightarrow> world \<Rightarrow> action list" where
  "steps_of w w' = drop (length (trace w)) (trace w')"

definition example_config :: Config where
  "example_config =
     \<lparr> cfg_repo = ''git@github.com:o/a.git'', repoName = ''o/a'', clonesDir = ''/clones'',
       cfg_baseBranch = ''main'', sessionPrefix = ''mfh-'', branchFormat = None,
       commitFormat = None \<rparr>"

section \<open>The revalidating caches\<close>

text \<open>
  JavaScript runs one job at a time: the synchronous part of a call runs to its first
  \<^verbatim>\<open>await\<close> without interruption, and the handlers of a promise run later, each as
  a job of its own. The caches are modelled as state machines whose steps are these jobs.

  A refresh that was started and whose handlers have not all run is a \<open>task\<close>: the
  promise of the listing or discovery call (\<open>task_id\<close>), the key it refreshes, whether
  \<^verbatim>\<open>refresh\<close> (\<open>Blocking\<close>) or \<^verbatim>\<open>triggerBackgroundUpdate\<close> (\<open>Background\<close>)
  started it, and how far it has come: the call is pending (\<open>Fetching\<close>), the promise has
  settled (\<open>Settled\<close>), or, for a background refresh, the \<^verbatim>\<open>then\<close> or
  \<^verbatim>\<open>catch\<close> handler has run and \<^verbatim>\<open>finally\<close> has not (\<open>Handled\<close>).

  What a call returns is either data, at once, or the promise of the pending refresh.
\<close>

datatype kind = Blocking | Background

datatype 'd phase = Fetching | Settled "error + 'd" | Handled

record ('k, 'd) task =
  task_id :: nat
  task_key :: 'k
  task_kind :: kind
  task_phase :: "'d phase"

datatype 'd answer = Now 'd | Later nat

definition settle_task :: "nat \<Rightarrow> error + 'd \<Rightarrow> ('k, 'd) task \<Rightarrow> ('k, 'd) task" where
  "settle_task i r t =
     (if task_id t = i \<and> task_phase t = Fetching then t\<lparr> task_phase := Settled r \<rparr> else t)"

definition mark_handled :: "nat \<Rightarrow> ('k, 'd) task \<Rightarrow> ('k, 'd) task" where
  "mark_handled i t = (if task_id t = i then t\<lparr> task_phase := Handled \<rparr> else t)"

subsection \<open>PRCacheService\<close>

record CacheEntry =
  data :: "PullRequest list"
  timestamp :: int
  lastInteraction :: int

record pr_cache =
  cache :: "string \<rightharpoonup> CacheEntry"
  updateInProgress :: "string \<rightharpoonup> nat"
  tasks :: "(string, PullRequest list) task list"
  issued :: "(string \<times> ListOptions) list"
  next_id :: nat

definition ttlMs :: int where
  "ttlMs = 60 * 60 * 1000"

definition pr_cache_init :: pr_cache where
  "pr_cache_init = \<lparr> cache = Map.empty, updateInProgress = Map.empty, tasks = [],
                      issued = [], next_id = 0 \<rparr>"

text \<open>
  The call \<^verbatim>\<open>this.github.listPRs(this.repoName, {state: 'open', author: username})\<close>
  followed by \<^verbatim>\<open>this.updateInProgress.set(username, updatePromise)\<close>.
\<close>

definition pr_start :: "kind \<Rightarrow> string \<Rightarrow> string \<Rightarrow> pr_cache \<Rightarrow> pr_cache" where
  "pr_start k repo_name username s =
     s\<lparr> issued := issued s @ [(repo_name, \<lparr> opt_author = Some username, opt_state = Some ''open'' \<rparr>)],
        updateInProgress := (updateInProgress s)(username \<mapsto> next_id s),
        tasks := tasks s @ [\<lparr> task_id = next_id s, task_key = username, task_kind = k,
                               task_phase = Fetching \<rparr>],
        next_id := next_id s + 1 \<rparr>"

definition pr_refresh :: "string \<Rightarrow> string \<Rightarrow> pr_cache \<Rightarrow> PullRequest list answer \<times> pr_cache" where
  "pr_refresh repo_name username s =
     (case updateInProgress s username of
        Some p \<Rightarrow> (Later p, s)
      | None \<Rightarrow> (Later (next_id s), pr_start Blocking repo_name username s))"

definition pr_triggerBackgroundUpdate :: "string \<Rightarrow> string \<Rightarrow> pr_cache \<Rightarrow> pr_cache" where
  "pr_triggerBackgroundUpdate repo_name username s =
     (case updateInProgress s username of
        Some p \<Rightarrow> s
      | None \<Rightarrow> pr_start Background repo_name username s)"

definition pr_fresh :: "pr_cache \<Rightarrow> string \<Rightarrow> int \<Rightarrow> bool" where
  "pr_fresh s username now =
     (case cache s username of
        None \<Rightarrow> False
      | Some entry \<Rightarrow> now - lastInteraction entry < ttlMs)"

definition pr_get :: "string \<Rightarrow> string \<Rightarrow> int \<Rightarrow> pr_cache \<Rightarrow> PullRequest list answer \<times> pr_cache" where
  "pr_get repo_name username now s =
     (case cache s username of
        None \<Rightarrow>
          (case updateInProgress s username of
             Some p \<Rightarrow> (Later p, s)
           | None \<Rightarrow> pr_refresh repo_name username s)
      | Some entry \<Rightarrow>
          if now - lastInteraction entry < ttlMs
          then (Now (data entry),
                s\<lparr> cache := (cache s)(username \<mapsto> entry\<lparr> lastInteraction := now \<rparr>) \<rparr>)
          else (case updateInProgress s username of
                  Some p \<Rightarrow> (Later p, s)
                | None \<Rightarrow> (Now (data entry), pr_triggerBackgroundUpdate repo_name username s)))"

definition pr_invalidate :: "string \<Rightarrow> string \<Rightarrow> pr_cache \<Rightarrow> PullRequest list answer \<times> pr_cache" where
  "pr_invalidate repo_name username s =
     pr_refresh repo_name username (s\<lparr> cache := (cache s)(username := None) \<rparr>)"

text \<open>
  The jobs that run when the promise of a task has settled. For \<^verbatim>\<open>refresh\<close>: the
  rest of the \<^verbatim>\<open>try\<close> block when the promise fulfilled, then \<^verbatim>\<open>finally\<close>. For a
  background update: the \<^verbatim>\<open>then\<close> handler or the \<^verbatim>\<open>catch\<close> handler first, and
  \<^verbatim>\<open>finally\<close> as a later job. \<^verbatim>\<open>existing?.lastInteraction || now\<close> is \<open>now\<close> also
  when the stored number is \<open>0\<close>.
\<close>

definition pr_finally :: "(string, PullRequest list) task \<Rightarrow> pr_cache \<Rightarrow> pr_cache" where
  "pr_finally t s =
     s\<lparr> updateInProgress := (updateInProgress s)(task_key t := None),
        tasks := filter (\<lambda>x. task_id x \<noteq> task_id t) (tasks s) \<rparr>"

definition pr_continue :: "nat \<Rightarrow> int \<Rightarrow> pr_cache \<Rightarrow> pr_cache" where
  "pr_continue i now s =
     (case find (\<lambda>t. task_id t = i) (tasks s) of
        None \<Rightarrow> s
      | Some t \<Rightarrow>
         (case task_phase t of
            Fetching \<Rightarrow> s
          | Handled \<Rightarrow> pr_finally t s
          | Settled r \<Rightarrow>
             (case task_kind t of
                Blocking \<Rightarrow>
                  pr_finally t
                    (case r of
                       Inl e \<Rightarrow> s
                     | Inr d \<Rightarrow>
                         s\<lparr> cache := (cache s)(task_key t \<mapsto>
                               \<lparr> data = d, timestamp = now, lastInteraction = now \<rparr>) \<rparr>)
              | Background \<Rightarrow>
                  (case r of
                     Inl e \<Rightarrow> s\<lparr> tasks := map (mark_handled i) (tasks s) \<rparr>
                   | Inr d \<Rightarrow>
                       s\<lparr> cache := (cache s)(task_key t \<mapsto>
                             \<lparr> data = d, timestamp = now,
                               lastInteraction =
                                 (case cache s (task_key t) of
                                    None \<Rightarrow> now
                                  | Some existing \<Rightarrow>
                                      if lastInteraction existing = 0 then now
                                      else lastInteraction existing) \<rparr>),
                          tasks := map (mark_handled i) (tasks s) \<rparr>))))"

text \<open>
  Everything that can happen to the cache: a caller runs the synchronous part of one of
  the methods, the listing call of a task settles, or the next job of a settled task
  runs. The times are whatever \<^verbatim>\<open>Date.now()\<close> returns in that job.
\<close>

datatype pr_event =
    Get string int
  | Refresh string
  | Invalidate string
  | InvalidateAll
  | MarkInteraction string int
  | Settle nat "error + PullRequest list"
  | Continue nat int

fun pr_step :: "string \<Rightarrow> pr_event \<Rightarrow> pr_cache \<Rightarrow> pr_cache" where
  "pr_step repo_name (Get u now) s = snd (pr_get repo_name u now s)"
| "pr_step repo_name (Refresh u) s = snd (pr_refresh repo_name u s)"
| "pr_step repo_name (Invalidate u) s = snd (pr_invalidate repo_name u s)"
| "pr_step repo_name InvalidateAll s = s\<lparr> cache := Map.empty \<rparr>"
| "pr_step repo_name (MarkInteraction u now) s =
     (case cache s u of
        None \<Rightarrow> s
      | Some entry \<Rightarrow> s\<lparr> cache := (cache s)(u \<mapsto> entry\<lparr> lastInteraction := now \<rparr>) \<rparr>)"
| "pr_step repo_name (Settle i r) s = s\<lparr> tasks := map (settle_task i r) (tasks s) \<rparr>"
| "pr_step repo_name (Continue i now) s = pr_continue i now s"

definition pr_run :: "string \<Rightarrow> pr_event list \<Rightarrow> pr_cache \<Rightarrow> pr_cache" where
  "pr_run repo_name events s = fold (pr_step repo_name) events s"

text \<open>The refreshes in flight for a key, and the listing calls issued for it.\<close>

definition pr_in_flight :: "pr_cache \<Rightarrow> string \<Rightarrow> (string, PullRequest list) task list" where
  "pr_in_flight s username = filter (\<lambda>t. task_key t = username) (tasks s)"

definition pr_issued_for :: "pr_cache \<Rightarrow> string \<Rightarrow> nat" where
  "pr_issued_for s username =
     length (filter (\<lambda>c. opt_author (snd c) = Some username) (issued s))"

subsection \<open>SessionCacheService\<close>

text \<open>
  One entry, no key; freshness counts from the time the entry was stored. The flag and
  the promise are two fields, as in the source. \<open>discoveries\<close> counts the calls of
  \<^verbatim>\<open>this.discovery.discover()\<close>.
\<close>

record SessionCacheEntry =
  s_data :: "SessionState list"
  s_timestamp :: int

record session_cache =
  s_cache :: "SessionCacheEntry option"
  s_updateInProgress :: bool
  s_updatePromise :: "nat option"
  s_tasks :: "(unit, SessionState list) task list"
  discoveries :: nat
  s_next_id :: nat

definition session_cache_init :: session_cache where
  "session_cache_init = \<lparr> s_cache = None, s_updateInProgress = False, s_updatePromise = None,
                           s_tasks = [], discoveries = 0, s_next_id = 0 \<rparr>"

definition s_start :: "kind \<Rightarrow> session_cache \<Rightarrow> session_cache" where
  "s_start k s =
     s\<lparr> s_updateInProgress := True,
        s_updatePromise := Some (s_next_id s),
        discoveries := discoveries s + 1,
        s_tasks := s_tasks s @ [\<lparr> task_id = s_next_id s, task_key = (), task_kind = k,
                                   task_phase = Fetching \<rparr>],
        s_next_id := s_next_id s + 1 \<rparr>"

definition s_refresh :: "session_cache \<Rightarrow> SessionState list answer \<times> session_cache" where
  "s_refresh s =
     (case (s_updateInProgress s, s_updatePromise s) of
        (True, Some p) \<Rightarrow> (Later p, s)
      | _ \<Rightarrow> (Later (s_next_id s), s_start Blocking s))"

definition s_triggerBackgroundUpdate :: "session_cache \<Rightarrow> session_cache" where
  "s_triggerBackgroundUpdate s = (if s_updateInProgress s then s else s_start Background s)"

definition s_fresh :: "int \<Rightarrow> session_cache \<Rightarrow> int \<Rightarrow> bool" where
  "s_fresh ttl s now =
     (case s_cache s of
        None \<Rightarrow> False
      | Some entry \<Rightarrow> now - s_timestamp entry < ttl)"

definition s_get_stale :: "session_cache \<Rightarrow> SessionState list answer \<times> session_cache" where
  "s_get_stale s =
     (case (s_updateInProgress s, s_updatePromise s) of
        (True, Some p) \<Rightarrow> (Later p, s)
      | _ \<Rightarrow>
         (case s_cache s of
            Some entry \<Rightarrow> (Now (s_data entry), s_triggerBackgroundUpdate s)
          | None \<Rightarrow> s_refresh s))"

definition s_get :: "int \<Rightarrow> int \<Rightarrow> session_cache \<Rightarrow> SessionState list answer \<times> session_cache" where
  "s_get ttl now s =
     (case s_cache s of
        None \<Rightarrow> s_get_stale s
      | Some entry \<Rightarrow>
          if now - s_timestamp entry < ttl then (Now (s_data entry), s)
          else s_get_stale s)"

definition s_invalidate :: "session_cache \<Rightarrow> SessionState list answer \<times> session_cache" where
  "s_invalidate s = s_refresh (s\<lparr> s_cache := None \<rparr>)"

definition s_finally :: "(unit, SessionState list) task \<Rightarrow> session_cache \<Rightarrow> session_cache" where
  "s_finally t s =
     s\<lparr> s_updateInProgress := False,
        s_updatePromise := None,
        s_tasks := filter (\<lambda>x. task_id x \<noteq> task_id t) (s_tasks s) \<rparr>"

definition s_store :: "error + SessionState list \<Rightarrow> int \<Rightarrow> session_cache \<Rightarrow> session_cache" where
  "s_store r now s =
     (case r of
        Inl e \<Rightarrow> s
      | Inr d \<Rightarrow> s\<lparr> s_cache := Some \<lparr> s_data = d, s_timestamp = now \<rparr> \<rparr>)"

definition s_continue :: "nat \<Rightarrow> int \<Rightarrow> session_cache \<Rightarrow> session_cache" where
  "s_continue i now s =
     (case find (\<lambda>t. task_id t = i) (s_tasks s) of
        None \<Rightarrow> s
      | Some t \<Rightarrow>
         (case task_phase t of
            Fetching \<Rightarrow> s
          | Handled \<Rightarrow> s_finally t s
          | Settled r \<Rightarrow>
             (case task_kind t of
                Blocking \<Rightarrow> s_finally t (s_store r now s)
              | Background \<Rightarrow>
                  (s_store r now s)\<lparr> s_tasks := map (mark_handled i) (s_tasks s) \<rparr>)))"

datatype s_event =
    SGet int
  | SRefresh
  | SInvalidate
  | SSettle nat "error + SessionState list"
  | SContinue nat int

fun s_step :: "int \<Rightarrow> s_event \<Rightarrow> session_cache \<Rightarrow> session_cache" where
  "s_step ttl (SGet now) s = snd (s_get ttl now s)"
| "s_step ttl SRefresh s = snd (s_refresh s)"
| "s_step ttl SInvalidate s = snd (s_invalidate s)"
| "s_step ttl (SSettle i r) s = s\<lparr> s_tasks := map (settle_task i r) (s_tasks s) \<rparr>"
| "s_step ttl (SContinue i now) s = s_continue i now s"

definition s_run :: "int \<Rightarrow> s_event list \<Rightarrow> session_cache \<Rightarrow> session_cache" where
  "s_run ttl events s = fold (s_step ttl) events s"

subsection \<open>Invariants of the caches\<close>

text \<open>
  What holds between the jobs: the tasks have distinct promises and distinct keys, and a
  key is marked as updating exactly when it has a task.
\<close>

definition pr_inv :: "pr_cache \<Rightarrow> bool" where
  "pr_inv s =
     (distinct (map task_key (tasks s))
      \<and> distinct (map task_id (tasks s))
      \<and> list_all (\<lambda>t. task_id t < next_id s) (tasks s)
      \<and> dom (updateInProgress s) = set (map task_key (tasks s)))"

definition s_inv :: "session_cache \<Rightarrow> bool" where
  "s_inv s =
     (length (s_tasks s) \<le> 1
      \<and> (s_updateInProgress s = (s_tasks s \<noteq> []))
      \<and> (s_updateInProgress s = (s_updatePromise s \<noteq> None)))"

section \<open>A small world to run the model on\<close>

text \<open>
  Four sessions: two in clones of \<^verbatim>\<open>o/a\<close>, one in a clone of \<^verbatim>\<open>o/b\<close>, one in a
  directory that is not a repository. The listing of \<^verbatim>\<open>o/a\<close> has three open requests,
  two of them on the branch \<^verbatim>\<open>feature/x\<close> and one on \<^verbatim>\<open>Feature/X\<close>; the listing
  of \<^verbatim>\<open>o/b\<close> fails.
\<close>

definition example_session :: "string \<Rightarrow> string \<Rightarrow> bool \<Rightarrow> TmuxSession" where
  "example_session i d a = \<lparr> session_id = i, workingDir = d, created = 0, attached = a \<rparr>"

definition example_tmux :: "string \<Rightarrow> TmuxSession list" where
  "example_tmux p =
     [example_session ''mfh-11'' ''/w/1'' True, example_session ''notes'' ''/tmp'' False,
      example_session ''mfh-12'' ''/w/2'' False, example_session ''other'' ''/w/3'' False]"

definition example_git :: git_env where
  "example_git =
     \<lparr> getRemote = (\<lambda>p. if p = ''/w/1'' \<or> p = ''/w/2'' then Inr ''git@github.com:o/a.git''
                        else if p = ''/w/3'' then Inr ''https://github.com/o/b''
                        else Inl (Error ''Failed to get remote: not a git repository'')),
       getBranch = (\<lambda>p. if p = ''/w/3'' then Inr ''main'' else Inr ''feature/x''),
       getStatus = (\<lambda>p. Inr (False, 0, 0)) \<rparr>"

definition example_pr :: "nat \<Rightarrow> string \<Rightarrow> PullRequest" where
  "example_pr n b =
     \<lparr> number = n, pr_title = ''feat: x'', pr_branch = b, baseBranch = ''main'',
       pr_repo = ''o/a'', state = OPEN, url = [], author = ''dev'', isDraft = False,
       pr_created = 0, updated = 0 \<rparr>"

definition example_listing :: listing where
  "example_listing r opts =
     (if r = ''o/a'' then Inr [example_pr 7 ''Feature/X'', example_pr 11 ''feature/x'',
                               example_pr 12 ''feature/x'']
      else Inl (Error ''Failed to list PRs: rate limit''))"

section \<open>Properties of parseRepo\<close>

lemma match_owner_name_sound:
  assumes "match_owner_name r = Some g"
  shows "\<exists>owner name rest.
           r = owner @ ''/'' @ name @ rest
           \<and> owner \<noteq> [] \<and> CHR ''/'' \<notin> set owner
           \<and> name \<noteq> [] \<and> CHR ''/'' \<notin> set name \<and> CHR ''.'' \<notin> set name
           \<and> g = owner @ ''/'' @ name"
proof -
  define owner where "owner = takeWhile (\<lambda>x. x \<noteq> CHR ''/'') r"
  define after where "after = dropWhile (\<lambda>x. x \<noteq> CHR ''/'') r"
  define name where "name = takeWhile (\<lambda>x. x \<noteq> CHR ''/'' \<and> x \<noteq> CHR ''.'') (drop 1 after)"
  define rest where "rest = dropWhile (\<lambda>x. x \<noteq> CHR ''/'' \<and> x \<noteq> CHR ''.'') (drop 1 after)"
  from assms have ne: "owner \<noteq> []" "after \<noteq> []" "name \<noteq> []" and g: "g = owner @ ''/'' @ name"
    unfolding match_owner_name_def owner_def[symmetric] after_def[symmetric] name_def[symmetric] Let_def
    by (simp_all split: if_splits)
  have "hd after = CHR ''/''"
    using ne(2) hd_dropWhile[of "\<lambda>x. x \<noteq> CHR ''/''" r] by (simp add: after_def)
  with ne(2) have after: "after = CHR ''/'' # drop 1 after"
    by (cases after) simp_all
  have "drop 1 after = name @ rest"
    by (simp add: name_def rest_def)
  with after have "after = ''/'' @ name @ rest" by simp
  moreover have "r = owner @ after" by (simp add: owner_def after_def)
  ultimately have r: "r = owner @ ''/'' @ name @ rest" by simp
  have "CHR ''/'' \<notin> set owner"
    unfolding owner_def by (auto dest: set_takeWhileD)
  moreover have "CHR ''/'' \<notin> set name" "CHR ''.'' \<notin> set name"
    unfolding name_def by (auto dest: set_takeWhileD)
  ultimately show ?thesis using r ne g by blast
qed

lemma match_owner_name_complete:
  assumes "owner \<noteq> []" and "CHR ''/'' \<notin> set owner"
    and "name \<noteq> []" and "CHR ''/'' \<notin> set name" and "CHR ''.'' \<notin> set name"
  shows "match_owner_name (owner @ ''/'' @ name @ rest)
         = Some (owner @ ''/'' @ name @ takeWhile (\<lambda>x. x \<noteq> CHR ''/'' \<and> x \<noteq> CHR ''.'') rest)"
proof -
  have o: "\<forall>x\<in>set owner. x \<noteq> CHR ''/''" using assms(2) by auto
  have tw: "takeWhile (\<lambda>x. x \<noteq> CHR ''/'') (owner @ CHR ''/'' # name @ rest) = owner"
    using o by (simp add: takeWhile_tail)
  have dw: "dropWhile (\<lambda>x. x \<noteq> CHR ''/'') (owner @ CHR ''/'' # name @ rest) = CHR ''/'' # name @ rest"
    using o by (simp add: dropWhile_append3)
  have n: "\<forall>x\<in>set name. x \<noteq> CHR ''/'' \<and> x \<noteq> CHR ''.''" using assms(4,5) by auto
  have tn: "takeWhile (\<lambda>x. x \<noteq> CHR ''/'' \<and> x \<noteq> CHR ''.'') (name @ rest)
      = name @ takeWhile (\<lambda>x. x \<noteq> CHR ''/'' \<and> x \<noteq> CHR ''.'') rest"
    using n by (simp add: takeWhile_append2)
  show ?thesis
    using assms(1,3) by (simp add: match_owner_name_def tw dw tn Let_def)
qed


lemma match_repo_at_sound:
  assumes "match_repo_at s = Some g"
  shows "\<exists>c owner name rest.
           s = ''github.com'' @ [c] @ owner @ ''/'' @ name @ rest
           \<and> (c = CHR '':'' \<or> c = CHR ''/'')
           \<and> owner \<noteq> [] \<and> CHR ''/'' \<notin> set owner
           \<and> name \<noteq> [] \<and> CHR ''/'' \<notin> set name \<and> CHR ''.'' \<notin> set name
           \<and> g = owner @ ''/'' @ name"
proof -
  from assms have p: "prefix ''github.com'' s"
    unfolding match_repo_at_def by (simp split: if_splits)
  then obtain t where s: "s = ''github.com'' @ t"
    unfolding prefix_def by blast
  have d: "drop (length ''github.com'') s = t"
    unfolding s by simp
  from assms p have m: "(case t of [] \<Rightarrow> None
         | c # r \<Rightarrow> if c = CHR '':'' \<or> c = CHR ''/'' then match_owner_name r else None) = Some g"
    unfolding match_repo_at_def d by simp
  then obtain c r where t: "t = c # r"
    by (cases t) simp_all
  from m t have c: "c = CHR '':'' \<or> c = CHR ''/''" and mo: "match_owner_name r = Some g"
    by (simp_all split: if_splits)
  from match_owner_name_sound[OF mo] obtain owner name rest where
    "r = owner @ ''/'' @ name @ rest" "owner \<noteq> []" "CHR ''/'' \<notin> set owner"
    "name \<noteq> []" "CHR ''/'' \<notin> set name" "CHR ''.'' \<notin> set name" "g = owner @ ''/'' @ name"
    by blast
  moreover from this(1) s t have "s = ''github.com'' @ [c] @ owner @ ''/'' @ name @ rest"
    by simp
  ultimately show ?thesis using c by blast
qed

lemma match_repo_at_complete:
  assumes "c = CHR '':'' \<or> c = CHR ''/''"
    and "owner \<noteq> []" and "CHR ''/'' \<notin> set owner"
    and "name \<noteq> []" and "CHR ''/'' \<notin> set name" and "CHR ''.'' \<notin> set name"
  shows "match_repo_at (''github.com'' @ [c] @ owner @ ''/'' @ name @ rest)
         = Some (owner @ ''/'' @ name @ takeWhile (\<lambda>x. x \<noteq> CHR ''/'' \<and> x \<noteq> CHR ''.'') rest)"
proof -
  have "match_repo_at (''github.com'' @ [c] @ owner @ ''/'' @ name @ rest)
        = match_owner_name (owner @ ''/'' @ name @ rest)"
    using assms(1) unfolding match_repo_at_def by simp
  then show ?thesis
    using match_owner_name_complete[OF assms(2-6)] by simp
qed


lemma match_repo_sound:
  "match_repo s = Some g \<Longrightarrow>
   \<exists>pre c owner name rest.
           s = pre @ ''github.com'' @ [c] @ owner @ ''/'' @ name @ rest
           \<and> (c = CHR '':'' \<or> c = CHR ''/'')
           \<and> owner \<noteq> [] \<and> CHR ''/'' \<notin> set owner
           \<and> name \<noteq> [] \<and> CHR ''/'' \<notin> set name \<and> CHR ''.'' \<notin> set name
           \<and> g = owner @ ''/'' @ name"
proof (induction s)
  case Nil
  then show ?case by (simp add: match_repo_at_def)
next
  case (Cons a s)
  show ?case
  proof (cases "match_repo_at (a # s)")
    case None
    with Cons.prems have "match_repo s = Some g" by simp
    from Cons.IH[OF this] obtain pre c owner name rest where
      h: "s = pre @ ''github.com'' @ [c] @ owner @ ''/'' @ name @ rest"
        "c = CHR '':'' \<or> c = CHR ''/''"
        "owner \<noteq> []" "CHR ''/'' \<notin> set owner"
        "name \<noteq> []" "CHR ''/'' \<notin> set name" "CHR ''.'' \<notin> set name"
        "g = owner @ ''/'' @ name" by blast
    from h(1) have "a # s = (a # pre) @ ''github.com'' @ [c] @ owner @ ''/'' @ name @ rest"
      by simp
    with h(2-8) show ?thesis by blast
  next
    case (Some h)
    with Cons.prems have "match_repo_at (a # s) = Some g" by simp
    from match_repo_at_sound[OF this] obtain c owner name rest where
      h: "a # s = ''github.com'' @ [c] @ owner @ ''/'' @ name @ rest"
        "c = CHR '':'' \<or> c = CHR ''/''"
        "owner \<noteq> []" "CHR ''/'' \<notin> set owner"
        "name \<noteq> []" "CHR ''/'' \<notin> set name" "CHR ''.'' \<notin> set name"
        "g = owner @ ''/'' @ name" by blast
    from h(1) have "a # s = [] @ ''github.com'' @ [c] @ owner @ ''/'' @ name @ rest"
      by simp
    with h(2-8) show ?thesis by blast
  qed
qed

lemma match_repo_at_imp:
  "match_repo_at s = Some g \<Longrightarrow> match_repo s = Some g"
  by (cases s) simp_all

lemma match_repo_Cons_None:
  "match_repo s \<noteq> None \<Longrightarrow> match_repo (a # s) \<noteq> None"
  by (simp split: option.splits)

lemma match_repo_complete:
  assumes "c = CHR '':'' \<or> c = CHR ''/''"
    and "owner \<noteq> []" and "CHR ''/'' \<notin> set owner"
    and "name \<noteq> []" and "CHR ''/'' \<notin> set name" and "CHR ''.'' \<notin> set name"
  shows "match_repo (pre @ ''github.com'' @ [c] @ owner @ ''/'' @ name @ rest) \<noteq> None"
proof (induction pre)
  case Nil
  show ?case
    using match_repo_at_imp[OF match_repo_at_complete[OF assms, of rest]] by simp
next
  case (Cons a pre)
  from match_repo_Cons_None[OF this, of a] show ?case by simp
qed

lemma match_repo_iff: "match_repo s \<noteq> None \<longleftrightarrow> recognized_remote s"
proof
  assume "match_repo s \<noteq> None"
  then obtain g where "match_repo s = Some g" by auto
  from match_repo_sound[OF this] show "recognized_remote s"
    unfolding recognized_remote_def by blast
next
  assume "recognized_remote s"
  then show "match_repo s \<noteq> None"
    unfolding recognized_remote_def using match_repo_complete by blast
qed

lemma no_tig_prefix:
  "m \<noteq> [] \<Longrightarrow> CHR ''.'' \<notin> set m \<Longrightarrow> \<not> prefix ''tig.'' (m @ CHR ''/'' # r)"
  apply (cases m, simp)
  subgoal for a m1
    apply (cases m1, simp)
    subgoal for b m2
      apply (cases m2, simp)
      subgoal for c m3
        apply (cases m3, simp)
        apply auto
        done
      done
    done
  done

lemma replace_git_suffix_owner_name:
  assumes "name \<noteq> []" and "CHR ''.'' \<notin> set name"
  shows "replace_git_suffix (owner @ ''/'' @ name) = owner @ ''/'' @ name"
proof -
  have "\<not> prefix ''tig.'' (rev name @ CHR ''/'' # rev owner)"
    using assms by (intro no_tig_prefix) simp_all
  then have "\<not> suffix ''.git'' (owner @ ''/'' @ name)"
    by (simp add: suffix_to_prefix)
  then show ?thesis by (simp add: replace_git_suffix_def)
qed

lemma match_repo_skip_ssh:
  "match_repo (''git@'' @ s) = match_repo s"
  by (simp add: match_repo_at_def)

lemma match_repo_skip_https:
  "match_repo (''https://'' @ s) = match_repo s"
  by (simp add: match_repo_at_def)

lemma match_repo_at_host:
  assumes "c = CHR '':'' \<or> c = CHR ''/''"
    and "owner \<noteq> []" and "CHR ''/'' \<notin> set owner"
    and "name \<noteq> []" and "CHR ''/'' \<notin> set name" and "CHR ''.'' \<notin> set name"
    and "rest = [] \<or> rest = ''.git''"
  shows "match_repo (''github.com'' @ [c] @ owner @ ''/'' @ name @ rest) = Some (owner @ ''/'' @ name)"
proof -
  have t: "takeWhile (\<lambda>x. x \<noteq> CHR ''/'' \<and> x \<noteq> CHR ''.'') rest = []"
    using assms(7) by auto
  show ?thesis
    using match_repo_at_imp[OF match_repo_at_complete[OF assms(1-6), of rest]] t by simp
qed

lemma parseRepo_Some:
  "match_repo s = Some g \<Longrightarrow> parseRepo s = Inr (replace_git_suffix g)"
  by (simp add: parseRepo_def)

lemma parseRepo_owner_name:
  assumes "owner \<noteq> []" and "CHR ''/'' \<notin> set owner"
    and "name \<noteq> []" and "CHR ''/'' \<notin> set name" and "CHR ''.'' \<notin> set name"
  shows "parseRepo (''git@github.com:'' @ owner @ ''/'' @ name @ ''.git'') = Inr (owner @ ''/'' @ name)"
    and "parseRepo (''https://github.com/'' @ owner @ ''/'' @ name) = Inr (owner @ ''/'' @ name)"
    and "parseRepo (''https://github.com/'' @ owner @ ''/'' @ name @ ''.git'') = Inr (owner @ ''/'' @ name)"
proof -
  note r = replace_git_suffix_owner_name[OF assms(3,5), of owner]
  have "match_repo (''git@'' @ ''github.com'' @ [CHR '':''] @ owner @ ''/'' @ name @ ''.git'')
        = Some (owner @ ''/'' @ name)"
    unfolding match_repo_skip_ssh using assms by (intro match_repo_at_host) simp_all
  from parseRepo_Some[OF this] r
  show "parseRepo (''git@github.com:'' @ owner @ ''/'' @ name @ ''.git'') = Inr (owner @ ''/'' @ name)"
    by simp
  have "match_repo (''https://'' @ ''github.com'' @ [CHR ''/''] @ owner @ ''/'' @ name @ [])
        = Some (owner @ ''/'' @ name)"
    unfolding match_repo_skip_https using assms by (intro match_repo_at_host) simp_all
  from parseRepo_Some[OF this] r
  show "parseRepo (''https://github.com/'' @ owner @ ''/'' @ name) = Inr (owner @ ''/'' @ name)"
    by simp
  have "match_repo (''https://'' @ ''github.com'' @ [CHR ''/''] @ owner @ ''/'' @ name @ ''.git'')
        = Some (owner @ ''/'' @ name)"
    unfolding match_repo_skip_https using assms by (intro match_repo_at_host) simp_all
  from parseRepo_Some[OF this] r
  show "parseRepo (''https://github.com/'' @ owner @ ''/'' @ name @ ''.git'') = Inr (owner @ ''/'' @ name)"
    by simp
qed

lemma parseRepo_unrecognized:
  "\<not> recognized_remote u \<Longrightarrow> parseRepo u = Inl (Error (''Invalid GitHub remote: '' @ u))"
  using match_repo_iff[of u] by (simp add: parseRepo_def)

lemma parseRepo_Inr_recognized:
  "parseRepo u = Inr v \<Longrightarrow> recognized_remote u"
  using match_repo_iff[of u] by (auto simp: parseRepo_def split: option.splits)

lemma not_recognized_gitlab: "\<not> recognized_remote ''https://gitlab.com/owner/repo''"
  unfolding match_repo_iff[symmetric]
  by (simp add: match_repo_at_def)

lemma parseRepo_other_host:
  "parseRepo ''git@host:owner/repo.git'' = Inl (Error ''Invalid GitHub remote: git@host:owner/repo.git'')"
  by (simp add: parseRepo_def match_repo_at_def)

text \<open>
  Whatever the expression captures has no dot in its name part, so it never ends in
  \<^verbatim>\<open>.git\<close>: the \<^verbatim>\<open>replace\<close> that follows the match never changes anything.
\<close>

lemma replace_git_suffix_never_fires:
  assumes "match_repo s = Some g"
  shows "replace_git_suffix g = g"
proof -
  from match_repo_sound[OF assms] obtain owner name where
    "name \<noteq> []" "CHR ''.'' \<notin> set name" "g = owner @ ''/'' @ name"
    by blast
  then show ?thesis
    using replace_git_suffix_owner_name[of name owner] by simp
qed

text \<open>
  Claim C7 says that \<open>parseRepo\<close> maps the remote URLs
  \<^verbatim>\<open>git@host:owner/repo.git\<close> and \<^verbatim>\<open>https://host/owner/repo\<close> to the repository
  identifier \<^verbatim>\<open>owner/repo\<close>, and throws for every remote that does not match a
  recognized hosting pattern. The code does not do this for a repository whose name has
  a dot: the name group \<^verbatim>\<open>[^/.]+\<close> stops at the first dot, so the identifier is
  cut there (\<^verbatim>\<open>socketio/socket.io\<close> becomes \<^verbatim>\<open>socketio/socket\<close>), while the
  \<^verbatim>\<open>replace\<close> that was written to strip the suffix \<^verbatim>\<open>.git\<close> never fires. And the
  expression is not anchored at the host, so a remote of another host that merely contains
  \<^verbatim>\<open>github.com/\<close> gets an identifier instead of the parse error.
\<close>

theorem parseRepo_dotted_name:
  "parseRepo ''git@github.com:socketio/socket.io.git'' = Inr ''socketio/socket''
   \<and> parseRepo ''git@github.com:socketio/socket.io.git'' \<noteq> Inr ''socketio/socket.io''
   \<and> parseRepo ''https://github.com/vercel/next.js'' = Inr ''vercel/next''
   \<and> parseRepo ''https://github.com/vercel/next.js'' \<noteq> Inr ''vercel/next.js''
   \<and> parseRepo ''https://notgithub.com/owner/repo'' = Inr ''owner/repo''"
  by (simp add: parseRepo_def match_repo_at_def match_owner_name_def replace_git_suffix_def
      suffix_to_prefix)

section \<open>Properties of generateMetadata\<close>

declare show_nat.simps [simp del]

lemma split_on_not_Nil: "split_on P s \<noteq> []"
  by (induction s) (auto split: list.splits)

lemma hd_split_on: "hd (split_on P s) = takeWhile (\<lambda>c. \<not> P c) s"
proof (induction s)
  case Nil
  then show ?case by simp
next
  case (Cons c cs)
  then show ?case
    using split_on_not_Nil[of P cs] by (cases "split_on P cs") auto
qed

lemma digit_char_is_digit: "d < 10 \<Longrightarrow> is_digit (digit_char d)"
  unfolding is_digit_def digit_char_def by (intro nth_mem) simp

lemma show_nat_digits: "\<forall>c \<in> set (show_nat n). is_digit c"
proof (induction n rule: show_nat.induct)
  case (1 n)
  show ?case
  proof (cases "n < 10")
    case True
    then show ?thesis
      by (subst show_nat.simps) (simp add: digit_char_is_digit)
  next
    case False
    have "n mod 10 < 10" by simp
    with False 1 show ?thesis
      by (subst show_nat.simps) (simp add: digit_char_is_digit)
  qed
qed

lemma show_nat_not_Nil: "show_nat n \<noteq> []"
  by (subst show_nat.simps) simp

lemma fallback_metadata_eq:
  "fallback_metadata prompt now =
     Inr \<lparr> branchName = ''ad/feat/task-'' @ show_nat now,
           title = take 72 (''feat: '' @ trim (hd (split_on is_sentence_end prompt))),
           body = ''Working on: '' @ prompt \<rparr>"
  using split_on_not_Nil[of is_sentence_end prompt]
  by (cases "split_on is_sentence_end prompt") (simp_all add: fallback_metadata_def)

lemma generateMetadata_failed:
  "assistant_failed a \<Longrightarrow> generateMetadata a prompt now = fallback_metadata prompt now"
  by (auto simp: assistant_failed_def generateMetadata_def parse_response_def
      split: sum.splits option.splits)

lemma generateMetadata_parsed:
  "\<not> assistant_failed a \<Longrightarrow>
   \<exists>output b t d. a = Inr output
     \<and> match_field ''BRANCH:'' output = Some b \<and> match_field ''TITLE:'' output = Some t
     \<and> match_field ''BODY:'' output = Some d
     \<and> generateMetadata a prompt now =
         Inr \<lparr> branchName = trim b, title = take 72 (trim t), body = trim d \<rparr>"
  by (auto simp: assistant_failed_def generateMetadata_def parse_response_def
      split: sum.splits option.splits)

text \<open>
  Claim C8. For every task prompt, when the assistant invocation fails or its response
  cannot be parsed, \<open>generateMetadata\<close> does not throw: it returns metadata whose title
  is \<^verbatim>\<open>feat: \<close> followed by the trimmed first segment of the prompt split at
  sentence punctuation, the whole cut to 72 characters (so it begins with
  \<^verbatim>\<open>feat:\<close>, and the whole segment follows when it has at most 66 characters), and
  whose branch name is \<^verbatim>\<open>ad/feat/task-\<close> followed by the decimal digits of the
  timestamp.
\<close>

theorem generateMetadata_fallback:
  assumes "assistant_failed a"
  shows "\<exists>m. generateMetadata a prompt now = Inr m
           \<and> title m = take 72 (''feat: '' @ trim (hd (split_on is_sentence_end prompt)))
           \<and> hd (split_on is_sentence_end prompt) = takeWhile (\<lambda>c. \<not> is_sentence_end c) prompt
           \<and> prefix ''feat:'' (title m)
           \<and> prefix (title m) (''feat: '' @ trim (hd (split_on is_sentence_end prompt)))
           \<and> (length (trim (hd (split_on is_sentence_end prompt))) \<le> 66
                \<longrightarrow> title m = ''feat: '' @ trim (hd (split_on is_sentence_end prompt)))
           \<and> branchName m = ''ad/feat/task-'' @ show_nat now
           \<and> show_nat now \<noteq> [] \<and> (\<forall>c \<in> set (show_nat now). is_digit c)
           \<and> body m = ''Working on: '' @ prompt"
proof -
  define seg where "seg = trim (hd (split_on is_sentence_end prompt))"
  have p: "prefix (take 72 (''feat: '' @ seg)) (''feat: '' @ seg)"
    by (rule take_is_prefix)
  have q: "length seg \<le> 66 \<longrightarrow> take 72 (''feat: '' @ seg) = ''feat: '' @ seg"
    by simp
  from generateMetadata_failed[OF assms, of prompt now] show_nat_digits[of now] p q
  show ?thesis
    unfolding seg_def
    by (simp add: fallback_metadata_eq hd_split_on show_nat_not_Nil del: take_append)
qed

theorem generateMetadata_fallback_witness:
  "assistant_failed (Inl (Error ''spawn claude ENOENT''))
   \<and> assistant_failed (Inr ''I cannot help with that.'')
   \<and> generateMetadata (Inl (Error ''spawn claude ENOENT'')) ''Add dark mode toggle'' 1700000000000
       = Inr \<lparr> branchName = ''ad/feat/task-1700000000000'',
               title = ''feat: Add dark mode toggle'',
               body = ''Working on: Add dark mode toggle'' \<rparr>
   \<and> (\<exists>m. generateMetadata (Inr ''I cannot help with that.'') ''Fix the login bug! Then refactor.'' 42
            = Inr m \<and> title m = ''feat: Fix the login bug'' \<and> branchName m = ''ad/feat/task-42'')"
proof -
  have f1: "assistant_failed (Inl (Error ''spawn claude ENOENT''))"
    by (simp add: assistant_failed_def)
  have f2: "assistant_failed (Inr ''I cannot help with that.'')"
    by (simp add: assistant_failed_def)
  have n1: "show_nat 1700000000000 = ''1700000000000''"
    by (simp add: show_nat.simps digit_char_def)
  have n2: "show_nat 42 = ''42''"
    by (simp add: show_nat.simps digit_char_def)
  have t1: "take 72 (''feat: '' @ trim (hd (split_on is_sentence_end ''Add dark mode toggle'')))
            = ''feat: Add dark mode toggle''"
    by (simp add: is_sentence_end_def nl_def trim_def is_space_def)
  have t2: "take 72 (''feat: '' @ trim (hd (split_on is_sentence_end ''Fix the login bug! Then refactor.'')))
            = ''feat: Fix the login bug''"
    by (simp add: is_sentence_end_def nl_def trim_def is_space_def)
  from generateMetadata_fallback[OF f1, of "''Add dark mode toggle''" 1700000000000]
  have g1: "generateMetadata (Inl (Error ''spawn claude ENOENT'')) ''Add dark mode toggle'' 1700000000000
       = Inr \<lparr> branchName = ''ad/feat/task-1700000000000'',
               title = ''feat: Add dark mode toggle'',
               body = ''Working on: Add dark mode toggle'' \<rparr>"
    unfolding n1 t1 by auto
  from generateMetadata_fallback[OF f2, of "''Fix the login bug! Then refactor.''" 42]
  have g2: "\<exists>m. generateMetadata (Inr ''I cannot help with that.'') ''Fix the login bug! Then refactor.'' 42
            = Inr m \<and> title m = ''feat: Fix the login bug'' \<and> branchName m = ''ad/feat/task-42''"
    unfolding n2 t2 by auto
  from f1 f2 g1 g2 show ?thesis by blast
qed

text \<open>
  Claim C10. For every prompt and every outcome of the assistant, \<open>generateMetadata\<close>
  returns metadata whose title has at most 72 characters, on the parsed-response path and
  on the fallback path.
\<close>

theorem generateMetadata_title_length:
  "\<exists>m. generateMetadata a prompt now = Inr m \<and> length (title m) \<le> 72"
proof (cases "assistant_failed a")
  case True
  from generateMetadata_failed[OF this, of prompt now] show ?thesis
    by (simp add: fallback_metadata_eq)
next
  case False
  from generateMetadata_parsed[OF this, of prompt now] show ?thesis
    by auto
qed

theorem generateMetadata_title_length_witness:
  "\<exists>m. generateMetadata
          (Inr (''BRANCH: ad/feat/dark-mode'' @ [nl] @
                ''TITLE: feat: add a dark mode toggle to the settings page and persist the choice across sessions'' @ [nl] @
                ''BODY: Adds the toggle.'')) ''Add dark mode toggle'' 1700000000000 = Inr m
        \<and> title m = ''feat: add a dark mode toggle to the settings page and persist the choice''
        \<and> length (title m) \<le> 72"
proof -
  define resp where "resp = ''BRANCH: ad/feat/dark-mode'' @ [nl] @
      ''TITLE: feat: add a dark mode toggle to the settings page and persist the choice across sessions'' @ [nl] @
      ''BODY: Adds the toggle.''"
  have b: "match_field ''BRANCH:'' resp = Some ''ad/feat/dark-mode''"
    by (simp add: resp_def nl_def capture_after_label_def is_space_def is_line_terminator_def)
  have t: "match_field ''TITLE:'' resp = Some ''feat: add a dark mode toggle to the settings page and persist the choice across sessions''"
    by (simp add: resp_def nl_def capture_after_label_def is_space_def is_line_terminator_def)
  have d: "match_field ''BODY:'' resp = Some ''Adds the toggle.''"
    by (simp add: resp_def nl_def capture_after_label_def is_space_def is_line_terminator_def)
  have g: "generateMetadata (Inr resp) ''Add dark mode toggle'' 1700000000000
           = Inr \<lparr> branchName = ''ad/feat/dark-mode'',
                   title = ''feat: add a dark mode toggle to the settings page and persist the choice'',
                   body = ''Adds the toggle.'' \<rparr>"
    by (simp add: generateMetadata_def parse_response_def b t d trim_def is_space_def)
  from generateMetadata_title_length[of "Inr resp" "''Add dark mode toggle''" 1700000000000]
  obtain m where m: "generateMetadata (Inr resp) ''Add dark mode toggle'' 1700000000000 = Inr m"
    and l: "length (title m) \<le> 72"
    by blast
  from m g have "m = \<lparr> branchName = ''ad/feat/dark-mode'',
                   title = ''feat: add a dark mode toggle to the settings page and persist the choice'',
                   body = ''Adds the toggle.'' \<rparr>"
    by simp
  then have "title m = ''feat: add a dark mode toggle to the settings page and persist the choice''"
    by simp
  with m l show ?thesis unfolding resp_def by blast
qed

section \<open>Properties of the handover\<close>

lemma escapePrompt_Nil: "escapePrompt [] = []"
  by (simp add: escapePrompt_def replace_all_def)

lemma escapePrompt_Cons:
  "escapePrompt (c # m) = (if c = sq then [sq, bslash, sq, sq] else [c]) @ escapePrompt m"
  by (simp add: escapePrompt_def replace_all_def)

lemma escapePrompt_append: "escapePrompt (a @ b) = escapePrompt a @ escapePrompt b"
  by (simp add: escapePrompt_def replace_all_def)

lemma escapePrompt_no_quote: "sq \<notin> set m \<Longrightarrow> escapePrompt m = m"
  by (induction m) (auto simp: escapePrompt_Nil escapePrompt_Cons)

lemma sh_chars:
  "sq \<noteq> bslash" "sq \<noteq> nl" "bslash \<noteq> sq" "\<not> sh_blank sq" "\<not> sh_blank bslash"
  "sq \<noteq> dq" "bslash \<noteq> dq" "dq \<noteq> sq" "dq \<noteq> bslash" "\<not> sh_blank dq"
  by (simp_all add: sq_def bslash_def nl_def dq_def sh_blank_def)

lemma sh_quoted_step_quote:
  "sh_quoted w (sq # bslash # sq # sq # s) = sh_quoted (w @ [sq]) s"
  by (simp add: sh_chars word_so_far_def)

lemma sh_quoted_escaped:
  "sh_quoted w (escapePrompt m @ sq # s) = sh_unquoted (Some (w @ m)) s"
proof (induction m arbitrary: w)
  case Nil
  then show ?case by (simp add: escapePrompt_Nil)
next
  case (Cons c m)
  show ?case
  proof (cases "c = sq")
    case True
    have "sh_quoted w (escapePrompt (c # m) @ sq # s)
          = sh_quoted w (sq # bslash # sq # sq # (escapePrompt m @ sq # s))"
      using True by (simp add: escapePrompt_Cons)
    also have "\<dots> = sh_quoted (w @ [sq]) (escapePrompt m @ sq # s)"
      by (rule sh_quoted_step_quote)
    also have "\<dots> = sh_unquoted (Some ((w @ [sq]) @ m)) s"
      by (rule Cons.IH)
    finally show ?thesis using True by simp
  next
    case False
    have "sh_quoted w (escapePrompt (c # m) @ sq # s)
          = sh_quoted (w @ [c]) (escapePrompt m @ sq # s)"
      using False by (simp add: escapePrompt_Cons)
    also have "\<dots> = sh_unquoted (Some ((w @ [c]) @ m)) s"
      by (rule Cons.IH)
    finally show ?thesis by simp
  qed
qed

lemma sh_words_quoted: "sh_words ([sq] @ escapePrompt m @ [sq]) = Some [m]"
  using sh_quoted_escaped[of "[]" m "[]"] by (simp add: sh_words_def word_so_far_def sh_chars)

lemma sh_words_claude:
  "sh_words (''claude '' @ [sq] @ s) = map_option (Cons ''claude'') (sh_quoted [] s)"
  by (simp add: sh_words_def sh_blank_def sh_special_def sq_def bslash_def dq_def nl_def word_so_far_def)

lemma sh_unquoted_flag:
  "sh_unquoted (Some w) '' --dangerously-skip-permissions'' = Some [w, ''--dangerously-skip-permissions'']"
  by (simp add: sh_blank_def sh_special_def sq_def bslash_def dq_def nl_def word_so_far_def)

lemma sh_words_claudeCommand: "sh_words (claudeCommand c) = Some [''claude'', buildContext c]"
proof -
  have "sh_words (claudeCommand c) = map_option (Cons ''claude'') (sh_quoted [] (escapePrompt (buildContext c) @ sq # []))"
    unfolding claudeCommand_def using sh_words_claude[of "escapePrompt (buildContext c) @ [sq]"] by simp
  then show ?thesis
    by (simp add: sh_quoted_escaped)
qed

lemma sh_words_claudeCommand_skip:
  "sh_words (claudeCommand_skip c) =
     Some (''claude'' # buildContext_skip c #
           (if skipPermissions c then [''--dangerously-skip-permissions''] else []))"
proof -
  define flag where "flag = (if skipPermissions c then '' --dangerously-skip-permissions'' else [])"
  have "sh_words (claudeCommand_skip c)
        = map_option (Cons ''claude'') (sh_quoted [] (escapePrompt (buildContext_skip c) @ sq # flag))"
    unfolding claudeCommand_skip_def flag_def[symmetric]
    using sh_words_claude[of "escapePrompt (buildContext_skip c) @ [sq] @ flag"] by simp
  also have "\<dots> = map_option (Cons ''claude'') (sh_unquoted (Some (buildContext_skip c)) flag)"
    by (simp add: sh_quoted_escaped)
  finally show ?thesis
    using sh_unquoted_flag[of "buildContext_skip c"] by (simp add: flag_def)
qed

lemma initialize_trace:
  "trace (snd (initialize e i c w)) = trace w @ [TmuxSendKeys i (claudeCommand c)]"
  by (simp add: initialize_def tmux_sendKeys_def port_call_def log_def split: option.splits)

lemma initialize_skip_trace:
  "trace (snd (initialize_skip e i c w)) = trace w @ [TmuxSendKeys i (claudeCommand_skip c)]"
  by (simp add: initialize_skip_def tmux_sendKeys_def port_call_def log_def split: option.splits)

text \<open>
  The single-quote layer of the handover: each quote becomes quote, backslash, quote,
  quote; the escaped message between single quotes is read back by the quoting rules as
  one word, which is the original message; \<open>initialize\<close> makes one \<^verbatim>\<open>sendKeys\<close>
  call with the command line as its keys.
\<close>

lemma escape_round_trip:
  "escapePrompt (a @ [sq] @ b) = escapePrompt a @ [sq, bslash, sq, sq] @ escapePrompt b
   \<and> sh_words ([sq] @ escapePrompt m @ [sq]) = Some [m]
   \<and> trace (snd (initialize e i c w)) = trace w @ [TmuxSendKeys i (claudeCommand c)]
   \<and> sh_words (claudeCommand c) = Some [''claude'', buildContext c]
   \<and> trace (snd (initialize_skip e i c w)) = trace w @ [TmuxSendKeys i (claudeCommand_skip c)]
   \<and> sh_words (claudeCommand_skip c) =
        Some (''claude'' # buildContext_skip c #
              (if skipPermissions c then [''--dangerously-skip-permissions''] else []))"
  using sh_words_quoted sh_words_claudeCommand sh_words_claudeCommand_skip initialize_trace
    initialize_skip_trace
  by (simp add: escapePrompt_append escapePrompt_Cons escapePrompt_Nil)

lemma escape_round_trip_example:
  "escapePrompt (''Don'' @ [sq] @ ''t break it'') = ''Don'' @ [sq, bslash, sq, sq] @ ''t break it''
   \<and> sh_words ([sq] @ ''Don'' @ [sq, bslash, sq, sq] @ ''t break it'' @ [sq])
        = Some [''Don'' @ [sq] @ ''t break it'']
   \<and> trace (snd (initialize (no_failures (\<lambda>r n. None)) ''mfh-42''
          \<lparr> prNumber = 42, ctx_branch = ''ad/fix/login'', ctx_baseBranch = ''main'',
            userPrompt = ''Don'' @ [sq] @ ''t break it'', guidelines = None,
            skipPermissions = True \<rparr>
          \<lparr> sessions = {''mfh-42''}, dirs = {}, trace = [] \<rparr>))
        = [TmuxSendKeys ''mfh-42'' (claudeCommand
             \<lparr> prNumber = 42, ctx_branch = ''ad/fix/login'', ctx_baseBranch = ''main'',
               userPrompt = ''Don'' @ [sq] @ ''t break it'', guidelines = None,
               skipPermissions = True \<rparr>)]
   \<and> sh_words (claudeCommand_skip
          \<lparr> prNumber = 42, ctx_branch = ''ad/fix/login'', ctx_baseBranch = ''main'',
            userPrompt = ''Don'' @ [sq] @ ''t break it'', guidelines = None,
            skipPermissions = True \<rparr>)
        = Some [''claude'',
                buildContext_skip
                  \<lparr> prNumber = 42, ctx_branch = ''ad/fix/login'', ctx_baseBranch = ''main'',
                    userPrompt = ''Don'' @ [sq] @ ''t break it'', guidelines = None,
                    skipPermissions = True \<rparr>,
                ''--dangerously-skip-permissions'']"
proof -
  define c where "c = \<lparr> prNumber = 42, ctx_branch = ''ad/fix/login'', ctx_baseBranch = ''main'',
            userPrompt = ''Don'' @ [sq] @ ''t break it'', guidelines = None,
            skipPermissions = True \<rparr>"
  have s: "skipPermissions c" by (simp add: c_def)
  have e: "escapePrompt ''Don'' = ''Don''" "escapePrompt ''t break it'' = ''t break it''"
    by (simp_all add: escapePrompt_def replace_all_def sq_def)
  note h = escape_round_trip[of "''Don''" "''t break it''" "''Don'' @ [sq] @ ''t break it''"
      "no_failures (\<lambda>r n. None)" "''mfh-42''" c
      "\<lparr> sessions = {''mfh-42''}, dirs = {}, trace = [] \<rparr>"]
  from h e have a: "escapePrompt (''Don'' @ [sq] @ ''t break it'')
                    = ''Don'' @ [sq, bslash, sq, sq] @ ''t break it''"
    by simp
  from h have "sh_words ([sq] @ escapePrompt (''Don'' @ [sq] @ ''t break it'') @ [sq])
               = Some [''Don'' @ [sq] @ ''t break it'']"
    by blast
  then have b: "sh_words ([sq] @ ''Don'' @ [sq, bslash, sq, sq] @ ''t break it'' @ [sq])
                = Some [''Don'' @ [sq] @ ''t break it'']"
    unfolding a by simp
  from h have t: "trace (snd (initialize (no_failures (\<lambda>r n. None)) ''mfh-42'' c
                    \<lparr> sessions = {''mfh-42''}, dirs = {}, trace = [] \<rparr>))
                  = [TmuxSendKeys ''mfh-42'' (claudeCommand c)]"
    by simp
  from h s have w: "sh_words (claudeCommand_skip c)
                    = Some [''claude'', buildContext_skip c, ''--dangerously-skip-permissions'']"
    by simp
  from a b t w show ?thesis
    unfolding c_def by blast
qed

text \<open>The first template at a concrete context, character by character.\<close>

lemma buildContext_example:
  "buildContext (example_context (''Keep C:'' @ [bslash, bslash] @ ''temp'')) =
     ''I'' @ [sq] @ ''m working on PR #42 (ad/fix/login -> main).'' @ [nl] @ [nl]
     @ ''User'' @ [sq] @ ''s request: Keep C:'' @ [bslash, bslash] @ ''temp'' @ [nl] @ [nl] @ [nl] @ [nl]
     @ ''Please help me implement this. Start by:'' @ [nl]
     @ ''1. Updating the PR title and description if needed'' @ [nl]
     @ ''2. Understanding the codebase context'' @ [nl]
     @ ''3. Implementing the requested changes'' @ [nl] @ [nl]
     @ ''Let me know when you'' @ [sq] @ ''re ready to start!''"
  by (simp add: buildContext_def example_context_def truthy_def show_nat.simps digit_char_def)

text \<open>
  Claim C9 says that the handover delivers the message built from the template in one
  injection into the session so that, escaped and wrapped in single quotes, it is read
  back as exactly the original message. The single-quote layer does that, but the
  delivery does not: \<^verbatim>\<open>sendKeys\<close> puts the keys between double quotes on the command
  line of the host's shell and escapes only the double quote, so the host's shell reads
  backslashes, dollar signs and backquotes in the message before tmux gets the keys.
  With two backslashes in the prompt, the keys that reach the session are those of a
  prompt with one backslash, and the session reads a message that is not the original;
  with a parameter reference in the prompt, the host's shell does not read the keys as a
  literal word at all.
\<close>

theorem handover_delivery_not_literal:
  "trace (snd (initialize (no_failures (\<lambda>r n. None)) ''mfh-42''
                 (example_context (''Keep C:'' @ [bslash, bslash] @ ''temp''))
                 \<lparr> sessions = {''mfh-42''}, dirs = {}, trace = [] \<rparr>))
     = [TmuxSendKeys ''mfh-42''
          (claudeCommand (example_context (''Keep C:'' @ [bslash, bslash] @ ''temp'')))]
   \<and> sh_words (sendKeys_command ''mfh-42''
          (claudeCommand (example_context (''Keep C:'' @ [bslash, bslash] @ ''temp''))))
       = Some [''tmux'', ''send-keys'', ''-t'', ''mfh-42'',
               claudeCommand (example_context (''Keep C:'' @ [bslash] @ ''temp'')), ''Enter'']
   \<and> sh_words (claudeCommand (example_context (''Keep C:'' @ [bslash] @ ''temp'')))
       = Some [''claude'', buildContext (example_context (''Keep C:'' @ [bslash] @ ''temp''))]
   \<and> buildContext (example_context (''Keep C:'' @ [bslash] @ ''temp''))
       \<noteq> buildContext (example_context (''Keep C:'' @ [bslash, bslash] @ ''temp''))
   \<and> sh_words (sendKeys_command ''mfh-42'' (claudeCommand (example_context ''Print $HOME'')))
       = None"
proof -
  have 1: "trace (snd (initialize (no_failures (\<lambda>r n. None)) ''mfh-42''
                 (example_context (''Keep C:'' @ [bslash, bslash] @ ''temp''))
                 \<lparr> sessions = {''mfh-42''}, dirs = {}, trace = [] \<rparr>))
     = [TmuxSendKeys ''mfh-42''
          (claudeCommand (example_context (''Keep C:'' @ [bslash, bslash] @ ''temp'')))]"
    by (simp add: initialize_trace)
  have 2: "sh_words (sendKeys_command ''mfh-42''
          (claudeCommand (example_context (''Keep C:'' @ [bslash, bslash] @ ''temp''))))
       = Some [''tmux'', ''send-keys'', ''-t'', ''mfh-42'',
               claudeCommand (example_context (''Keep C:'' @ [bslash] @ ''temp'')), ''Enter'']"
    by (simp add: sendKeys_command_def claudeCommand_def buildContext_def example_context_def
        truthy_def show_nat.simps digit_char_def escapePrompt_def replace_all_def sh_words_def
        sh_blank_def sh_special_def dq_escapable_def word_so_far_def sq_def dq_def bslash_def
        nl_def)
  have 3: "sh_words (claudeCommand (example_context (''Keep C:'' @ [bslash] @ ''temp'')))
       = Some [''claude'', buildContext (example_context (''Keep C:'' @ [bslash] @ ''temp''))]"
    by (rule sh_words_claudeCommand)
  have 4: "buildContext (example_context (''Keep C:'' @ [bslash] @ ''temp''))
       \<noteq> buildContext (example_context (''Keep C:'' @ [bslash, bslash] @ ''temp''))"
    by (simp add: buildContext_def example_context_def truthy_def bslash_def)
  have 5: "sh_words (sendKeys_command ''mfh-42'' (claudeCommand (example_context ''Print $HOME'')))
       = None"
    by (simp add: sendKeys_command_def claudeCommand_def buildContext_def example_context_def
        truthy_def show_nat.simps digit_char_def escapePrompt_def replace_all_def sh_words_def
        sh_blank_def sh_special_def dq_escapable_def word_so_far_def sq_def dq_def bslash_def
        nl_def)
  from 1 2 3 4 5 show ?thesis by blast
qed

section \<open>Properties of discovery\<close>

lemma set_set_add: "set (set_add x xs) = insert x (set xs)"
  by (auto simp: set_add_def)

lemma distinct_set_add: "distinct xs \<Longrightarrow> distinct (set_add x xs)"
  by (simp add: set_add_def)

lemma repos_spanned_Nil: "repos_spanned g [] = {}"
  by (simp add: repos_spanned_def)

lemma repos_spanned_Cons:
  "repos_spanned g (s # ss) =
     (case getInfo g (workingDir s) of Inr info \<Rightarrow> {repo info} | Inl e \<Rightarrow> {}) \<union> repos_spanned g ss"
  by (simp add: repos_spanned_def split: sum.splits)

lemma set_collect_repos:
  "set (collect_repos g ss acc) = set acc \<union> repos_spanned g ss"
  by (induction ss arbitrary: acc)
     (auto simp: repos_spanned_Nil repos_spanned_Cons set_set_add split: sum.splits)

lemma distinct_collect_repos:
  "distinct acc \<Longrightarrow> distinct (collect_repos g ss acc)"
  by (induction ss arbitrary: acc) (auto simp: distinct_set_add split: sum.splits)

lemma fetch_repo_result: "fst (fetch_repo l r st) = Inr ()"
  by (simp add: fetch_repo_def split: sum.splits)

lemma fetch_repo_calls: "calls (snd (fetch_repo l r st)) = calls st @ [(r, open_only)]"
  by (simp add: fetch_repo_def split: sum.splits)

lemma fetch_repo_prMap:
  "prMap (snd (fetch_repo l r st)) =
     (case l r open_only of
        Inr prs \<Rightarrow> (prMap st)(r \<mapsto> add_prs prs Map.empty)
      | Inl e \<Rightarrow> prMap st)"
  by (simp add: fetch_repo_def split: sum.splits)

lemma fetch_all_Cons:
  "fetch_all l (r # rs) st =
     (fst (fetch_repo l r st) # fst (fetch_all l rs (snd (fetch_repo l r st))),
      snd (fetch_all l rs (snd (fetch_repo l r st))))"
  by (simp split: prod.splits)

lemma fetch_all_results: "fst (fetch_all l rs st) = replicate (length rs) (Inr ())"
  by (induction rs arbitrary: st) (simp_all add: fetch_all_Cons fetch_repo_result del: fetch_all.simps(2))

lemma fetch_all_calls:
  "calls (snd (fetch_all l rs st)) = calls st @ map (\<lambda>r. (r, open_only)) rs"
  by (induction rs arbitrary: st) (simp_all add: fetch_all_Cons fetch_repo_calls del: fetch_all.simps(2))

lemma fetch_all_prMap:
  "prMap (snd (fetch_all l rs st)) r =
     (if r \<in> set rs then
        (case l r open_only of
           Inr prs \<Rightarrow> Some (add_prs prs Map.empty)
         | Inl e \<Rightarrow> prMap st r)
      else prMap st r)"
proof (induction rs arbitrary: st)
  case Nil
  then show ?case by simp
next
  case (Cons a rs)
  show ?case
    unfolding fetch_all_Cons snd_conv Cons.IH fetch_repo_prMap
    by (auto split: sum.splits)
qed

lemma promise_all_replicate: "promise_all (replicate n (Inr x)) = Inr (replicate n x)"
  by (induction n) simp_all

lemma promise_all_map_Inr: "promise_all (map (\<lambda>x. Inr (f x)) xs) = Inr (map f xs)"
  by (induction xs) simp_all

lemma non_null_map_Some: "non_null (map (\<lambda>x. Some (f x)) xs) = map f xs"
  by (simp add: non_null_def comp_def)

lemma add_prs_lookup:
  "add_prs prs m b = (case m b of Some x \<Rightarrow> Some x | None \<Rightarrow> find (\<lambda>p. pr_branch p = b) prs)"
  by (induction prs arbitrary: m) (auto split: option.splits)

lemma find_first:
  "\<forall>q \<in> set pre. \<not> P q \<Longrightarrow> P p \<Longrightarrow> find P (pre @ p # post) = Some p"
  by (induction pre) simp_all

lemma find_none: "\<forall>q \<in> set xs. \<not> P q \<Longrightarrow> find P xs = None"
  by (induction xs) simp_all

lemma discoverOneWithCache_eq:
  "discoverOneWithCache g s m =
     Inr (Some \<lparr> session = s,
                 gitInfo = (case getInfo g (workingDir s) of Inr i \<Rightarrow> Some i | Inl e \<Rightarrow> None),
                 pr = lookup_pr m (case getInfo g (workingDir s) of Inr i \<Rightarrow> Some i | Inl e \<Rightarrow> None),
                 hasGit = (case getInfo g (workingDir s) of Inr i \<Rightarrow> True | Inl e \<Rightarrow> False),
                 hasPR = (lookup_pr m (case getInfo g (workingDir s) of Inr i \<Rightarrow> Some i | Inl e \<Rightarrow> None) \<noteq> None),
                 isActive = attached s \<rparr>)"
  by (cases "getInfo g (workingDir s)") (simp_all add: discoverOneWithCache_def Let_def)

lemma discover_eq:
  "discover tm g l =
     (Inr (map (\<lambda>s. \<lparr> session = s,
                 gitInfo = (case getInfo g (workingDir s) of Inr i \<Rightarrow> Some i | Inl e \<Rightarrow> None),
                 pr = lookup_pr (final_map tm g l) (case getInfo g (workingDir s) of Inr i \<Rightarrow> Some i | Inl e \<Rightarrow> None),
                 hasGit = (case getInfo g (workingDir s) of Inr i \<Rightarrow> True | Inl e \<Rightarrow> False),
                 hasPR = (lookup_pr (final_map tm g l) (case getInfo g (workingDir s) of Inr i \<Rightarrow> Some i | Inl e \<Rightarrow> None) \<noteq> None),
                 isActive = attached s \<rparr>) (tm [])),
      map (\<lambda>r. (r, open_only)) (collect_repos g (tm []) []))"
proof -
  obtain fetched st where f: "fetch_all l (collect_repos g (tm []) []) \<lparr> prMap = Map.empty, calls = [] \<rparr> = (fetched, st)"
    by (cases "fetch_all l (collect_repos g (tm []) []) \<lparr> prMap = Map.empty, calls = [] \<rparr>")
  have 1: "promise_all fetched = Inr (replicate (length (collect_repos g (tm []) [])) ())"
    using fetch_all_results[of l "collect_repos g (tm []) []" "\<lparr> prMap = Map.empty, calls = [] \<rparr>"] f
    by (simp add: promise_all_replicate)
  have 2: "calls st = map (\<lambda>r. (r, open_only)) (collect_repos g (tm []) [])"
    using fetch_all_calls[of l "collect_repos g (tm []) []" "\<lparr> prMap = Map.empty, calls = [] \<rparr>"] f
    by simp
  have 3: "prMap st = final_map tm g l"
    using f by (simp add: final_map_def)
  show ?thesis
    unfolding discover_def Let_def f
    by (simp add: 1 2 3 discoverOneWithCache_eq promise_all_map_Inr non_null_map_Some)
qed


lemma not_under_version_control_state:
  assumes "getInfo g (workingDir s) = Inl err"
  shows "\<lparr> session = s,
           gitInfo = (case getInfo g (workingDir s) of Inr i \<Rightarrow> Some i | Inl e \<Rightarrow> None),
           pr = lookup_pr m (case getInfo g (workingDir s) of Inr i \<Rightarrow> Some i | Inl e \<Rightarrow> None),
           hasGit = (case getInfo g (workingDir s) of Inr i \<Rightarrow> True | Inl e \<Rightarrow> False),
           hasPR = (lookup_pr m (case getInfo g (workingDir s) of Inr i \<Rightarrow> Some i | Inl e \<Rightarrow> None) \<noteq> None),
           isActive = attached s \<rparr>
         = \<lparr> session = s, gitInfo = None, pr = None, hasGit = False, hasPR = False,
             isActive = attached s \<rparr>"
  using assms by (simp add: lookup_pr_def)

lemma discoverSession_not_git:
  assumes "getInfo g (workingDir s) = Inl err"
  shows "discoverSession g l s =
           Inr (Some \<lparr> ds_session = s, ds_workingDir = workingDir s, ds_gitInfo = None,
                       ds_pr = None, hasValidGit = False, ds_hasPR = False,
                       ds_isActive = attached s \<rparr>)"
  using assms by (simp add: discoverSession_def)

lemma discoverSession_returns: "\<exists>st. discoverSession g l s = Inr (Some st)"
  by (cases "getInfo g (workingDir s)") (simp_all add: discoverSession_def Let_def)

lemma promise_all_map:
  "\<forall>x \<in> set xs. f x = Inr (h x) \<Longrightarrow> promise_all (map f xs) = Inr (map h xs)"
  by (induction xs) simp_all

lemma discover_sessions_eq:
  "discover_sessions tm g l = Inr (map (\<lambda>s. the (projr (discoverSession g l s))) (tm []))"
proof -
  have "discoverSession g l s = Inr (Some (the (projr (discoverSession g l s))))" for s
    using discoverSession_returns[of g l s] by auto
  then have "promise_all (map (discoverSession g l) (tm []))
             = Inr (map (\<lambda>s. Some (the (projr (discoverSession g l s)))) (tm []))"
    by (intro promise_all_map) simp
  then show ?thesis
    by (simp add: discover_sessions_def non_null_map_Some)
qed

text \<open>
  Claim C3. For every session whose working directory is not under version control
  (reading the repository snapshot throws), discovery still includes that session in its
  result, with no snapshot, no request, has-valid-repo false and has-matched-request
  false, and the discovery call returns a list instead of throwing. This holds for the
  bulk discovery and for the discovery that looks requests up session by session.
\<close>

theorem discover_not_under_version_control:
  assumes "s \<in> set (tm [])" and "getInfo g (workingDir s) = Inl err"
  shows "(\<exists>states. fst (discover tm g l) = Inr states
            \<and> \<lparr> session = s, gitInfo = None, pr = None, hasGit = False, hasPR = False,
                 isActive = attached s \<rparr> \<in> set states)
         \<and> (\<exists>states. discover_sessions tm g l = Inr states
            \<and> \<lparr> ds_session = s, ds_workingDir = workingDir s, ds_gitInfo = None,
                 ds_pr = None, hasValidGit = False, ds_hasPR = False,
                 ds_isActive = attached s \<rparr> \<in> set states)"
proof
  define F where "F = (\<lambda>s. \<lparr> session = s,
           gitInfo = (case getInfo g (workingDir s) of Inr i \<Rightarrow> Some i | Inl e \<Rightarrow> None),
           pr = lookup_pr (final_map tm g l) (case getInfo g (workingDir s) of Inr i \<Rightarrow> Some i | Inl e \<Rightarrow> None),
           hasGit = (case getInfo g (workingDir s) of Inr i \<Rightarrow> True | Inl e \<Rightarrow> False),
           hasPR = (lookup_pr (final_map tm g l) (case getInfo g (workingDir s) of Inr i \<Rightarrow> Some i | Inl e \<Rightarrow> None) \<noteq> None),
           isActive = attached s \<rparr>)"
  have d: "fst (discover tm g l) = Inr (map F (tm []))"
    unfolding discover_eq F_def by simp
  have "F s \<in> set (map F (tm []))"
    using assms(1) by simp
  moreover have "F s = \<lparr> session = s, gitInfo = None, pr = None, hasGit = False, hasPR = False,
                 isActive = attached s \<rparr>"
    unfolding F_def by (rule not_under_version_control_state[OF assms(2)])
  ultimately show "\<exists>states. fst (discover tm g l) = Inr states
            \<and> \<lparr> session = s, gitInfo = None, pr = None, hasGit = False, hasPR = False,
                 isActive = attached s \<rparr> \<in> set states"
    using d by auto
next
  define G where "G = (\<lambda>s. the (projr (discoverSession g l s)))"
  have d: "discover_sessions tm g l = Inr (map G (tm []))"
    unfolding discover_sessions_eq G_def by simp
  have "G s \<in> set (map G (tm []))"
    using assms(1) by simp
  moreover have "G s = \<lparr> ds_session = s, ds_workingDir = workingDir s, ds_gitInfo = None,
            ds_pr = None, hasValidGit = False, ds_hasPR = False, ds_isActive = attached s \<rparr>"
    unfolding G_def by (simp add: discoverSession_not_git[OF assms(2)])
  ultimately show "\<exists>states. discover_sessions tm g l = Inr states
            \<and> \<lparr> ds_session = s, ds_workingDir = workingDir s, ds_gitInfo = None,
                 ds_pr = None, hasValidGit = False, ds_hasPR = False,
                 ds_isActive = attached s \<rparr> \<in> set states"
    using d by auto
qed

text \<open>
  Claim C1. For every list of sessions whose working directories span N distinct
  repository identifiers, one call of \<open>discover\<close> issues exactly N listing calls, one for
  each of these identifiers and each for the open requests, whatever the number of
  sessions.
\<close>

theorem discover_bulk_fetch:
  "length (snd (discover tm g l)) = card (repos_spanned g (tm []))
   \<and> distinct (map fst (snd (discover tm g l)))
   \<and> fst ` set (snd (discover tm g l)) = repos_spanned g (tm [])
   \<and> (\<forall>c \<in> set (snd (discover tm g l)). snd c = open_only)"
proof -
  define repos where "repos = collect_repos g (tm []) []"
  have c: "snd (discover tm g l) = map (\<lambda>r. (r, open_only)) repos"
    unfolding discover_eq repos_def by simp
  have d: "distinct repos"
    unfolding repos_def by (rule distinct_collect_repos) simp
  have s: "set repos = repos_spanned g (tm [])"
    unfolding repos_def by (simp add: set_collect_repos)
  have m: "map fst (map (\<lambda>r. (r, open_only)) repos) = repos"
    by (simp add: comp_def)
  have "length (snd (discover tm g l)) = card (set repos)"
    using distinct_card[OF d] c by simp
  moreover have "fst ` set (snd (discover tm g l)) = set repos"
    unfolding c using m by (metis set_map)
  ultimately show ?thesis
    using c d s m by auto
qed

lemma example_getInfo:
  "getInfo example_git ''/w/1'' = Inr \<lparr> remote = ''git@github.com:o/a.git'', repo = ''o/a'',
      branch = ''feature/x'', isDirty = False, ahead = 0, behind = 0 \<rparr>"
  "getInfo example_git ''/w/2'' = Inr \<lparr> remote = ''git@github.com:o/a.git'', repo = ''o/a'',
      branch = ''feature/x'', isDirty = False, ahead = 0, behind = 0 \<rparr>"
  "getInfo example_git ''/w/3'' = Inr \<lparr> remote = ''https://github.com/o/b'', repo = ''o/b'',
      branch = ''main'', isDirty = False, ahead = 0, behind = 0 \<rparr>"
  "getInfo example_git ''/tmp'' = Inl (Error ''Failed to get remote: not a git repository'')"
  by (simp_all add: getInfo_def example_git_def parseRepo_def match_repo_at_def
      match_owner_name_def replace_git_suffix_def suffix_to_prefix)

lemma example_spanned: "repos_spanned example_git (example_tmux []) = {''o/a'', ''o/b''}"
  by (auto simp: repos_spanned_def example_tmux_def example_session_def example_getInfo)

theorem discover_bulk_fetch_witness:
  "length (example_tmux []) = 4
   \<and> repos_spanned example_git (example_tmux []) = {''o/a'', ''o/b''}
   \<and> length (snd (discover example_tmux example_git example_listing)) = 2
   \<and> fst ` set (snd (discover example_tmux example_git example_listing)) = {''o/a'', ''o/b''}"
proof -
  have "card {''o/a'', ''o/b''} = (2::nat)" by simp
  with discover_bulk_fetch[of example_tmux example_git example_listing] example_spanned
  show ?thesis by (simp add: example_tmux_def)
qed

theorem discover_not_under_version_control_witness:
  "example_session ''notes'' ''/tmp'' False \<in> set (example_tmux [])
   \<and> getInfo example_git (workingDir (example_session ''notes'' ''/tmp'' False))
        = Inl (Error ''Failed to get remote: not a git repository'')
   \<and> (\<exists>states. fst (discover example_tmux example_git example_listing) = Inr states
        \<and> \<lparr> session = example_session ''notes'' ''/tmp'' False, gitInfo = None, pr = None,
             hasGit = False, hasPR = False, isActive = False \<rparr> \<in> set states)
   \<and> (\<exists>states. discover_sessions example_tmux example_git example_listing = Inr states
        \<and> \<lparr> ds_session = example_session ''notes'' ''/tmp'' False, ds_workingDir = ''/tmp'',
             ds_gitInfo = None, ds_pr = None, hasValidGit = False, ds_hasPR = False,
             ds_isActive = False \<rparr> \<in> set states)"
proof -
  have m: "example_session ''notes'' ''/tmp'' False \<in> set (example_tmux [])"
    by (simp add: example_tmux_def)
  have w: "workingDir (example_session ''notes'' ''/tmp'' False) = ''/tmp''"
    and a: "attached (example_session ''notes'' ''/tmp'' False) = False"
    by (simp_all add: example_session_def)
  have g: "getInfo example_git (workingDir (example_session ''notes'' ''/tmp'' False))
        = Inl (Error ''Failed to get remote: not a git repository'')"
    unfolding w by (rule example_getInfo(4))
  from discover_not_under_version_control[where tm = example_tmux and l = example_listing, OF m g] m g
  show ?thesis unfolding w a by simp
qed

lemma repos_spanned_mem:
  "s \<in> set ss \<Longrightarrow> getInfo g (workingDir s) = Inr i \<Longrightarrow> repo i \<in> repos_spanned g ss"
  unfolding repos_spanned_def by (auto intro!: bexI[of _ s])

lemma final_map_listed:
  assumes "s \<in> set (tm [])" and "getInfo g (workingDir s) = Inr i"
    and "l (repo i) open_only = Inr prs"
  shows "lookup_pr (final_map tm g l) (Some i) = find (\<lambda>p. pr_branch p = branch i) prs"
proof -
  have "repo i \<in> set (collect_repos g (tm []) [])"
    using repos_spanned_mem[of s "tm []" g i] assms(1,2) by (simp add: set_collect_repos)
  then have "final_map tm g l (repo i) = Some (add_prs prs Map.empty)"
    unfolding final_map_def fetch_all_prMap using assms(3) by simp
  then show ?thesis
    by (simp add: lookup_pr_def add_prs_lookup)
qed

text \<open>
  Claim C4. A session with a snapshot whose repository has a listing is matched to the
  first request of the listing, in the order the listing call returned it, whose branch
  equals the session's branch as a string (so a branch that differs in case does not
  match), and to none when there is no such request. \<open>findPR\<close> finds the same
  request.
\<close>

theorem discover_first_seen_wins:
  assumes "s \<in> set (tm [])" and "getInfo g (workingDir s) = Inr i"
    and "l (repo i) open_only = Inr prs"
  shows "(\<exists>states. fst (discover tm g l) = Inr states
            \<and> \<lparr> session = s, gitInfo = Some i,
                 pr = find (\<lambda>p. pr_branch p = branch i) prs, hasGit = True,
                 hasPR = (find (\<lambda>p. pr_branch p = branch i) prs \<noteq> None),
                 isActive = attached s \<rparr> \<in> set states)
         \<and> findPR l (repo i) (branch i) = Inr (find (\<lambda>p. pr_branch p = branch i) prs)
         \<and> (\<forall>pre p post. prs = pre @ p # post \<and> pr_branch p = branch i
                \<and> (\<forall>q \<in> set pre. pr_branch q \<noteq> branch i)
              \<longrightarrow> find (\<lambda>p. pr_branch p = branch i) prs = Some p)
         \<and> ((\<forall>q \<in> set prs. pr_branch q \<noteq> branch i)
              \<longrightarrow> find (\<lambda>p. pr_branch p = branch i) prs = None)"
proof -
  define F where "F = (\<lambda>s. \<lparr> session = s,
           gitInfo = (case getInfo g (workingDir s) of Inr i \<Rightarrow> Some i | Inl e \<Rightarrow> None),
           pr = lookup_pr (final_map tm g l) (case getInfo g (workingDir s) of Inr i \<Rightarrow> Some i | Inl e \<Rightarrow> None),
           hasGit = (case getInfo g (workingDir s) of Inr i \<Rightarrow> True | Inl e \<Rightarrow> False),
           hasPR = (lookup_pr (final_map tm g l) (case getInfo g (workingDir s) of Inr i \<Rightarrow> Some i | Inl e \<Rightarrow> None) \<noteq> None),
           isActive = attached s \<rparr>)"
  have d: "fst (discover tm g l) = Inr (map F (tm []))"
    unfolding discover_eq F_def by simp
  have "F s \<in> set (map F (tm []))"
    using assms(1) by simp
  moreover have "F s = \<lparr> session = s, gitInfo = Some i,
                 pr = find (\<lambda>p. pr_branch p = branch i) prs, hasGit = True,
                 hasPR = (find (\<lambda>p. pr_branch p = branch i) prs \<noteq> None),
                 isActive = attached s \<rparr>"
    unfolding F_def using assms(2) final_map_listed[where tm = tm and l = l, OF assms] by simp
  ultimately have 1: "\<exists>states. fst (discover tm g l) = Inr states
            \<and> \<lparr> session = s, gitInfo = Some i,
                 pr = find (\<lambda>p. pr_branch p = branch i) prs, hasGit = True,
                 hasPR = (find (\<lambda>p. pr_branch p = branch i) prs \<noteq> None),
                 isActive = attached s \<rparr> \<in> set states"
    using d by auto
  have 2: "findPR l (repo i) (branch i) = Inr (find (\<lambda>p. pr_branch p = branch i) prs)"
    using assms(3) by (simp add: findPR_def)
  have 3: "\<forall>pre p post. prs = pre @ p # post \<and> pr_branch p = branch i
                \<and> (\<forall>q \<in> set pre. pr_branch q \<noteq> branch i)
              \<longrightarrow> find (\<lambda>p. pr_branch p = branch i) prs = Some p"
    using find_first[of _ "\<lambda>p. pr_branch p = branch i"] by blast
  have 4: "(\<forall>q \<in> set prs. pr_branch q \<noteq> branch i)
              \<longrightarrow> find (\<lambda>p. pr_branch p = branch i) prs = None"
    using find_none[of prs "\<lambda>p. pr_branch p = branch i"] by blast
  from 1 2 3 4 show ?thesis by blast
qed

theorem discover_first_seen_wins_witness:
  "example_session ''mfh-11'' ''/w/1'' True \<in> set (example_tmux [])
   \<and> example_listing ''o/a'' open_only
       = Inr ([example_pr 7 ''Feature/X''] @ example_pr 11 ''feature/x'' # [example_pr 12 ''feature/x''])
   \<and> (\<exists>states. fst (discover example_tmux example_git example_listing) = Inr states
        \<and> \<lparr> session = example_session ''mfh-11'' ''/w/1'' True,
             gitInfo = Some \<lparr> remote = ''git@github.com:o/a.git'', repo = ''o/a'',
                               branch = ''feature/x'', isDirty = False, ahead = 0, behind = 0 \<rparr>,
             pr = Some (example_pr 11 ''feature/x''), hasGit = True, hasPR = True,
             isActive = True \<rparr> \<in> set states)
   \<and> findPR example_listing ''o/a'' ''feature/x'' = Inr (Some (example_pr 11 ''feature/x''))"
proof -
  define i where "i = \<lparr> remote = ''git@github.com:o/a.git'', repo = ''o/a'',
                         branch = ''feature/x'', isDirty = False, ahead = 0, behind = 0 \<rparr>"
  define prs where "prs = [example_pr 7 ''Feature/X''] @ example_pr 11 ''feature/x'' # [example_pr 12 ''feature/x'']"
  have m: "example_session ''mfh-11'' ''/w/1'' True \<in> set (example_tmux [])"
    by (simp add: example_tmux_def)
  have g: "getInfo example_git (workingDir (example_session ''mfh-11'' ''/w/1'' True)) = Inr i"
    by (simp add: example_session_def example_getInfo(1) i_def)
  have l: "example_listing (repo i) open_only = Inr prs"
    by (simp add: example_listing_def i_def prs_def)
  have b: "pr_branch (example_pr 11 ''feature/x'') = branch i"
    and n: "\<forall>q \<in> set [example_pr 7 ''Feature/X'']. pr_branch q \<noteq> branch i"
    by (simp_all add: example_pr_def i_def)
  note h = discover_first_seen_wins[where tm = example_tmux and l = example_listing, OF m g l]
  from h b n have f: "find (\<lambda>p. pr_branch p = branch i) prs = Some (example_pr 11 ''feature/x'')"
    unfolding prs_def by blast
  from h have "\<exists>states. fst (discover example_tmux example_git example_listing) = Inr states
            \<and> \<lparr> session = example_session ''mfh-11'' ''/w/1'' True, gitInfo = Some i,
                 pr = find (\<lambda>p. pr_branch p = branch i) prs, hasGit = True,
                 hasPR = (find (\<lambda>p. pr_branch p = branch i) prs \<noteq> None),
                 isActive = attached (example_session ''mfh-11'' ''/w/1'' True) \<rparr> \<in> set states"
    by blast
  then have 1: "\<exists>states. fst (discover example_tmux example_git example_listing) = Inr states
            \<and> \<lparr> session = example_session ''mfh-11'' ''/w/1'' True, gitInfo = Some i,
                 pr = Some (example_pr 11 ''feature/x''), hasGit = True, hasPR = True,
                 isActive = True \<rparr> \<in> set states"
    unfolding f by (simp add: example_session_def)
  from h have "findPR example_listing (repo i) (branch i) = Inr (find (\<lambda>p. pr_branch p = branch i) prs)"
    by blast
  then have 2: "findPR example_listing ''o/a'' ''feature/x'' = Inr (Some (example_pr 11 ''feature/x''))"
    unfolding f by (simp add: i_def)
  from l have 3: "example_listing ''o/a'' open_only = Inr prs"
    by (simp add: i_def)
  from m 1 2 3 show ?thesis
    unfolding i_def prs_def by blast
qed

section \<open>Properties of the workflows\<close>

lemmas io_defs = io_bind_def io_return_def io_throw_def port_call_def log_def

lemma close_closePR_fails:
  assumes "closePR_error e (repoName cfg) n = Some err"
  shows "close e cfg n w = (Inl err, w\<lparr> trace := trace w @ [ClosePR (repoName cfg) n] \<rparr>)"
  using assms by (simp add: close_def github_closePR_def io_defs)

lemma close_nothing_to_clean:
  assumes "closePR_error e (repoName cfg) n = None"
    and "sessionIdOf cfg n \<notin> sessions w" and "clonePathOf e cfg n \<notin> dirs w"
  shows "close e cfg n w =
           (Inr (), w\<lparr> trace := trace w @ [ClosePR (repoName cfg) n,
                                           TmuxExists (sessionIdOf cfg n),
                                           ExistsSync (clonePathOf e cfg n)] \<rparr>)"
  using assms
  by (simp add: close_def github_closePR_def tmux_exists_def existsSync_def io_defs)

lemma close_steps:
  "\<exists>rest. trace (snd (close e cfg n w)) = trace w @ ClosePR (repoName cfg) n # rest"
  by (simp add: close_def github_closePR_def tmux_exists_def tmux_kill_def existsSync_def
      rmSync_def io_defs split: option.splits)

lemma close_no_kill:
  assumes "sessionIdOf cfg n \<notin> sessions w"
  shows "TmuxKill i \<notin> set (steps_of w (snd (close e cfg n w)))"
  using assms
  by (simp add: steps_of_def close_def github_closePR_def tmux_exists_def tmux_kill_def
      existsSync_def rmSync_def io_defs split: option.splits)

lemma close_no_rm:
  assumes "clonePathOf e cfg n \<notin> dirs w"
  shows "RmSync p \<notin> set (steps_of w (snd (close e cfg n w)))"
  using assms
  by (simp add: steps_of_def close_def github_closePR_def tmux_exists_def tmux_kill_def
      existsSync_def rmSync_def io_defs split: option.splits)


lemma close_session_missing:
  assumes "closePR_error e (repoName cfg) n = None"
    and "sessionIdOf cfg n \<notin> sessions w" and "clonePathOf e cfg n \<in> dirs w"
  shows "fst (close e cfg n w)
           = (case rm_error e (clonePathOf e cfg n) of None \<Rightarrow> Inr () | Some err \<Rightarrow> Inl err)"
    and "steps_of w (snd (close e cfg n w))
           = [ClosePR (repoName cfg) n, TmuxExists (sessionIdOf cfg n),
              ExistsSync (clonePathOf e cfg n), RmSync (clonePathOf e cfg n)]"
  using assms
  by (simp_all add: steps_of_def close_def github_closePR_def tmux_exists_def existsSync_def
      rmSync_def io_defs split: option.splits)

lemma close_directory_missing:
  assumes "closePR_error e (repoName cfg) n = None"
    and "sessionIdOf cfg n \<in> sessions w" and "kill_error e (sessionIdOf cfg n) = None"
    and "clonePathOf e cfg n \<notin> dirs w"
  shows "close e cfg n w =
           (Inr (), w\<lparr> sessions := sessions w - {sessionIdOf cfg n},
                        trace := trace w @ [ClosePR (repoName cfg) n,
                                           TmuxExists (sessionIdOf cfg n),
                                           TmuxKill (sessionIdOf cfg n),
                                           ExistsSync (clonePathOf e cfg n)] \<rparr>)"
  using assms
  by (simp add: close_def github_closePR_def tmux_exists_def tmux_kill_def existsSync_def
      io_defs)

text \<open>
  Claim C5. For every request identifier, teardown closes the review request first; a
  missing session is skipped (no kill is attempted) and a missing clone directory is
  skipped (no removal is attempted), without error; teardown on a request with neither
  succeeds, having closed the request and only looked for the session and the directory;
  a failure closing the request propagates to the caller, and nothing after the close is
  attempted: no session is killed and no directory removed. Each skip is without error
  also when the other resource is there: with the session missing and the directory
  present the outcome is that of the removal alone, and with the directory missing and the
  session present and killed the teardown succeeds.
\<close>

theorem close_teardown:
  "(\<exists>rest. steps_of w (snd (close e cfg n w)) = ClosePR (repoName cfg) n # rest)
   \<and> (sessionIdOf cfg n \<notin> sessions w
        \<longrightarrow> (\<forall>i. TmuxKill i \<notin> set (steps_of w (snd (close e cfg n w)))))
   \<and> (clonePathOf e cfg n \<notin> dirs w
        \<longrightarrow> (\<forall>p. RmSync p \<notin> set (steps_of w (snd (close e cfg n w)))))
   \<and> (closePR_error e (repoName cfg) n = None
        \<and> sessionIdOf cfg n \<notin> sessions w \<and> clonePathOf e cfg n \<notin> dirs w
        \<longrightarrow> fst (close e cfg n w) = Inr ()
          \<and> steps_of w (snd (close e cfg n w))
              = [ClosePR (repoName cfg) n, TmuxExists (sessionIdOf cfg n),
                 ExistsSync (clonePathOf e cfg n)]
          \<and> sessions (snd (close e cfg n w)) = sessions w
          \<and> dirs (snd (close e cfg n w)) = dirs w)
   \<and> (\<forall>err. closePR_error e (repoName cfg) n = Some err
        \<longrightarrow> fst (close e cfg n w) = Inl err
          \<and> steps_of w (snd (close e cfg n w)) = [ClosePR (repoName cfg) n]
          \<and> sessions (snd (close e cfg n w)) = sessions w
          \<and> dirs (snd (close e cfg n w)) = dirs w)
   \<and> (closePR_error e (repoName cfg) n = None
        \<and> sessionIdOf cfg n \<notin> sessions w \<and> clonePathOf e cfg n \<in> dirs w
        \<longrightarrow> fst (close e cfg n w)
              = (case rm_error e (clonePathOf e cfg n) of None \<Rightarrow> Inr () | Some err \<Rightarrow> Inl err)
          \<and> steps_of w (snd (close e cfg n w))
              = [ClosePR (repoName cfg) n, TmuxExists (sessionIdOf cfg n),
                 ExistsSync (clonePathOf e cfg n), RmSync (clonePathOf e cfg n)])
   \<and> (closePR_error e (repoName cfg) n = None
        \<and> sessionIdOf cfg n \<in> sessions w \<and> kill_error e (sessionIdOf cfg n) = None
        \<and> clonePathOf e cfg n \<notin> dirs w
        \<longrightarrow> fst (close e cfg n w) = Inr ()
          \<and> steps_of w (snd (close e cfg n w))
              = [ClosePR (repoName cfg) n, TmuxExists (sessionIdOf cfg n),
                 TmuxKill (sessionIdOf cfg n), ExistsSync (clonePathOf e cfg n)]
          \<and> sessions (snd (close e cfg n w)) = sessions w - {sessionIdOf cfg n}
          \<and> dirs (snd (close e cfg n w)) = dirs w)"
proof (intro conjI impI allI)
  from close_steps[of e cfg n w]
  show "\<exists>rest. steps_of w (snd (close e cfg n w)) = ClosePR (repoName cfg) n # rest"
    by (auto simp: steps_of_def)
next
  fix i assume "sessionIdOf cfg n \<notin> sessions w"
  then show "TmuxKill i \<notin> set (steps_of w (snd (close e cfg n w)))"
    by (rule close_no_kill)
next
  fix p assume "clonePathOf e cfg n \<notin> dirs w"
  then show "RmSync p \<notin> set (steps_of w (snd (close e cfg n w)))"
    by (rule close_no_rm)
next
  assume a: "closePR_error e (repoName cfg) n = None
        \<and> sessionIdOf cfg n \<notin> sessions w \<and> clonePathOf e cfg n \<notin> dirs w"
  then have c: "close e cfg n w =
           (Inr (), w\<lparr> trace := trace w @ [ClosePR (repoName cfg) n,
                                           TmuxExists (sessionIdOf cfg n),
                                           ExistsSync (clonePathOf e cfg n)] \<rparr>)"
    by (intro close_nothing_to_clean) simp_all
  show "fst (close e cfg n w) = Inr ()" by (simp add: c)
  show "steps_of w (snd (close e cfg n w))
              = [ClosePR (repoName cfg) n, TmuxExists (sessionIdOf cfg n),
                 ExistsSync (clonePathOf e cfg n)]"
    by (simp add: c steps_of_def)
  show "sessions (snd (close e cfg n w)) = sessions w" by (simp add: c)
  show "dirs (snd (close e cfg n w)) = dirs w" by (simp add: c)
next
  fix err assume a: "closePR_error e (repoName cfg) n = Some err"
  note c = close_closePR_fails[OF a, of w]
  show "fst (close e cfg n w) = Inl err" by (simp add: c)
  show "steps_of w (snd (close e cfg n w)) = [ClosePR (repoName cfg) n]"
    by (simp add: c steps_of_def)
  show "sessions (snd (close e cfg n w)) = sessions w" by (simp add: c)
  show "dirs (snd (close e cfg n w)) = dirs w" by (simp add: c)
next
  assume a: "closePR_error e (repoName cfg) n = None
        \<and> sessionIdOf cfg n \<notin> sessions w \<and> clonePathOf e cfg n \<in> dirs w"
  then have a1: "closePR_error e (repoName cfg) n = None"
    and a2: "sessionIdOf cfg n \<notin> sessions w" and a3: "clonePathOf e cfg n \<in> dirs w"
    by simp_all
  show "fst (close e cfg n w)
              = (case rm_error e (clonePathOf e cfg n) of None \<Rightarrow> Inr () | Some err \<Rightarrow> Inl err)"
    by (rule close_session_missing(1)[OF a1 a2 a3])
  show "steps_of w (snd (close e cfg n w))
              = [ClosePR (repoName cfg) n, TmuxExists (sessionIdOf cfg n),
                 ExistsSync (clonePathOf e cfg n), RmSync (clonePathOf e cfg n)]"
    by (rule close_session_missing(2)[OF a1 a2 a3])
next
  assume a: "closePR_error e (repoName cfg) n = None
        \<and> sessionIdOf cfg n \<in> sessions w \<and> kill_error e (sessionIdOf cfg n) = None
        \<and> clonePathOf e cfg n \<notin> dirs w"
  then have c: "close e cfg n w =
           (Inr (), w\<lparr> sessions := sessions w - {sessionIdOf cfg n},
                        trace := trace w @ [ClosePR (repoName cfg) n,
                                           TmuxExists (sessionIdOf cfg n),
                                           TmuxKill (sessionIdOf cfg n),
                                           ExistsSync (clonePathOf e cfg n)] \<rparr>)"
    by (intro close_directory_missing) simp_all
  show "fst (close e cfg n w) = Inr ()" by (simp add: c)
  show "steps_of w (snd (close e cfg n w))
              = [ClosePR (repoName cfg) n, TmuxExists (sessionIdOf cfg n),
                 TmuxKill (sessionIdOf cfg n), ExistsSync (clonePathOf e cfg n)]"
    by (simp add: c steps_of_def)
  show "sessions (snd (close e cfg n w)) = sessions w - {sessionIdOf cfg n}" by (simp add: c)
  show "dirs (snd (close e cfg n w)) = dirs w" by (simp add: c)
qed

lemma example_names:
  "sessionIdOf example_config 42 = ''mfh-42''"
  "clonePathOf (no_failures f) example_config 42 = ''/clones/pr-42''"
  "clonePathOf ((no_failures f)\<lparr> closePR_error := c \<rparr>) example_config 42 = ''/clones/pr-42''"
  "repoName example_config = ''o/a''"
  by (simp_all add: sessionIdOf_def clonePathOf_def example_config_def no_failures_def
      show_nat.simps digit_char_def)

theorem close_teardown_witness:
  "fst (close (no_failures (\<lambda>r n. None)) example_config 42
          \<lparr> sessions = {''notes''}, dirs = {''/clones''}, trace = [] \<rparr>) = Inr ()
   \<and> steps_of \<lparr> sessions = {''notes''}, dirs = {''/clones''}, trace = [] \<rparr>
        (snd (close (no_failures (\<lambda>r n. None)) example_config 42
                \<lparr> sessions = {''notes''}, dirs = {''/clones''}, trace = [] \<rparr>))
       = [ClosePR ''o/a'' 42, TmuxExists ''mfh-42'', ExistsSync ''/clones/pr-42'']
   \<and> fst (close ((no_failures (\<lambda>r n. None))
                  \<lparr> closePR_error := (\<lambda>r n. Some (Error ''Failed to close PR: not found'')) \<rparr>)
             example_config 42
             \<lparr> sessions = {''mfh-42''}, dirs = {''/clones/pr-42''}, trace = [] \<rparr>)
       = Inl (Error ''Failed to close PR: not found'')
   \<and> steps_of \<lparr> sessions = {''mfh-42''}, dirs = {''/clones/pr-42''}, trace = [] \<rparr>
        (snd (close ((no_failures (\<lambda>r n. None))
                  \<lparr> closePR_error := (\<lambda>r n. Some (Error ''Failed to close PR: not found'')) \<rparr>)
             example_config 42
             \<lparr> sessions = {''mfh-42''}, dirs = {''/clones/pr-42''}, trace = [] \<rparr>))
       = [ClosePR ''o/a'' 42]
   \<and> sessions (snd (close ((no_failures (\<lambda>r n. None))
                  \<lparr> closePR_error := (\<lambda>r n. Some (Error ''Failed to close PR: not found'')) \<rparr>)
             example_config 42
             \<lparr> sessions = {''mfh-42''}, dirs = {''/clones/pr-42''}, trace = [] \<rparr>)) = {''mfh-42''}
   \<and> dirs (snd (close ((no_failures (\<lambda>r n. None))
                  \<lparr> closePR_error := (\<lambda>r n. Some (Error ''Failed to close PR: not found'')) \<rparr>)
             example_config 42
             \<lparr> sessions = {''mfh-42''}, dirs = {''/clones/pr-42''}, trace = [] \<rparr>)) = {''/clones/pr-42''}"
proof -
  define e1 where "e1 = no_failures (\<lambda>r n. None)"
  define e2 where "e2 = (no_failures (\<lambda>r n. None))
                  \<lparr> closePR_error := (\<lambda>r n. Some (Error ''Failed to close PR: not found'')) \<rparr>"
  define w1 where "w1 = \<lparr> sessions = {''notes''}, dirs = {''/clones''}, trace = [] \<rparr>"
  define w2 where "w2 = \<lparr> sessions = {''mfh-42''}, dirs = {''/clones/pr-42''}, trace = [] \<rparr>"
  have h1: "closePR_error e1 (repoName example_config) 42 = None
        \<and> sessionIdOf example_config 42 \<notin> sessions w1
        \<and> clonePathOf e1 example_config 42 \<notin> dirs w1"
    unfolding e1_def w1_def example_names by (simp add: no_failures_def)
  have h2: "closePR_error e2 (repoName example_config) 42 = Some (Error ''Failed to close PR: not found'')"
    unfolding e2_def by simp
  from close_teardown[of w1 e1 example_config 42] h1
  have a: "fst (close e1 example_config 42 w1) = Inr ()"
    and b: "steps_of w1 (snd (close e1 example_config 42 w1))
            = [ClosePR ''o/a'' 42, TmuxExists ''mfh-42'', ExistsSync ''/clones/pr-42'']"
    unfolding e1_def example_names by blast+
  from close_teardown[of w2 e2 example_config 42] h2
  have c: "fst (close e2 example_config 42 w2) = Inl (Error ''Failed to close PR: not found'')"
    and d: "steps_of w2 (snd (close e2 example_config 42 w2)) = [ClosePR ''o/a'' 42]"
    and s: "sessions (snd (close e2 example_config 42 w2)) = sessions w2"
    and r: "dirs (snd (close e2 example_config 42 w2)) = dirs w2"
    unfolding e2_def example_names by blast+
  have "sessions w2 = {''mfh-42''}" "dirs w2 = {''/clones/pr-42''}"
    by (simp_all add: w2_def)
  with a b c d s r show ?thesis
    unfolding e1_def e2_def w1_def w2_def by simp
qed

lemma setupExisting_not_found:
  assumes "getPR_result e (repoName cfg) n = None"
  shows "setupExisting e cfg n w =
           (Inl (Error (''PR #'' @ show_nat n @ '' not found'')),
            w\<lparr> trace := trace w @ [GetPR (repoName cfg) n] \<rparr>)"
  using assms by (simp add: setupExisting_def github_getPR_def io_defs)

lemma setupExisting_conflict:
  assumes "getPR_result e (repoName cfg) n = Some p"
    and "clonePathOf e cfg (number p) \<in> dirs w"
  shows "setupExisting e cfg n w =
           (Inl (Error (''Clone already exists at '' @ clonePathOf e cfg (number p))),
            w\<lparr> trace := trace w @ [GetPR (repoName cfg) n,
                                    ExistsSync (clonePathOf e cfg (number p))] \<rparr>)"
  using assms by (simp add: setupExisting_def github_getPR_def existsSync_def io_defs Let_def)

text \<open>
  Claim C6, as stated, fails: with the directory \<^verbatim>\<open>pr-42\<close> in place and no request
  42 known to the review system, \<open>setupExisting\<close> fails with the not-found error, not
  with the conflict error, because the request is fetched before the directory is looked
  at.
\<close>

theorem setupExisting_conflict_claim_counterexample:
  "clonePathOf (no_failures (\<lambda>r n. None)) example_config 42
     \<in> dirs \<lparr> sessions = {}, dirs = {''/clones'', ''/clones/pr-42''}, trace = [] \<rparr>
   \<and> fst (setupExisting (no_failures (\<lambda>r n. None)) example_config 42
            \<lparr> sessions = {}, dirs = {''/clones'', ''/clones/pr-42''}, trace = [] \<rparr>)
       = Inl (Error ''PR #42 not found'')
   \<and> fst (setupExisting (no_failures (\<lambda>r n. None)) example_config 42
            \<lparr> sessions = {}, dirs = {''/clones'', ''/clones/pr-42''}, trace = [] \<rparr>)
       \<noteq> Inl (Error (''Clone already exists at ''
                       @ clonePathOf (no_failures (\<lambda>r n. None)) example_config 42))"
proof -
  have g: "getPR_result (no_failures (\<lambda>r n. None)) (repoName example_config) 42 = None"
    by (simp add: no_failures_def)
  have n: "show_nat 42 = ''42''"
    by (simp add: show_nat.simps digit_char_def)
  show ?thesis
    unfolding setupExisting_not_found[OF g] example_names n by simp
qed

text \<open>
  Claim C6, amended. For every request identifier that \<^verbatim>\<open>getPR\<close> resolves to a
  request whose clone directory \<^verbatim>\<open>pr-{number}\<close> already exists, \<open>setupExisting\<close> fails
  with the conflict error \<^verbatim>\<open>Clone already exists at ...\<close>, having only fetched the
  request and tested the directory. When \<^verbatim>\<open>getPR\<close> finds no request it fails with
  the not-found error instead, having only tried to fetch the request. In both cases it
  performs no destructive or provisioning action: nothing is removed, created or cloned,
  no session is created, the handover is not run, and the directories and sessions are
  as before.
\<close>

theorem setupExisting_no_destructive_action:
  "(\<forall>p. getPR_result e (repoName cfg) n = Some p \<and> clonePathOf e cfg (number p) \<in> dirs w
        \<longrightarrow> fst (setupExisting e cfg n w)
              = Inl (Error (''Clone already exists at '' @ clonePathOf e cfg (number p)))
          \<and> steps_of w (snd (setupExisting e cfg n w))
              = [GetPR (repoName cfg) n, ExistsSync (clonePathOf e cfg (number p))])
   \<and> (getPR_result e (repoName cfg) n = None
        \<longrightarrow> fst (setupExisting e cfg n w) = Inl (Error (''PR #'' @ show_nat n @ '' not found''))
          \<and> steps_of w (snd (setupExisting e cfg n w)) = [GetPR (repoName cfg) n])
   \<and> ((getPR_result e (repoName cfg) n = None
         \<or> (\<exists>p. getPR_result e (repoName cfg) n = Some p \<and> clonePathOf e cfg (number p) \<in> dirs w))
        \<longrightarrow> (\<forall>a \<in> set (steps_of w (snd (setupExisting e cfg n w))). \<not> provisioning a)
          \<and> dirs (snd (setupExisting e cfg n w)) = dirs w
          \<and> sessions (snd (setupExisting e cfg n w)) = sessions w)"
proof (intro conjI allI impI)
  fix p assume a: "getPR_result e (repoName cfg) n = Some p \<and> clonePathOf e cfg (number p) \<in> dirs w"
  then have c: "setupExisting e cfg n w =
           (Inl (Error (''Clone already exists at '' @ clonePathOf e cfg (number p))),
            w\<lparr> trace := trace w @ [GetPR (repoName cfg) n,
                                    ExistsSync (clonePathOf e cfg (number p))] \<rparr>)"
    by (intro setupExisting_conflict) simp_all
  show "fst (setupExisting e cfg n w)
              = Inl (Error (''Clone already exists at '' @ clonePathOf e cfg (number p)))"
    by (simp add: c)
  show "steps_of w (snd (setupExisting e cfg n w))
              = [GetPR (repoName cfg) n, ExistsSync (clonePathOf e cfg (number p))]"
    by (simp add: c steps_of_def)
next
  assume a: "getPR_result e (repoName cfg) n = None"
  note c = setupExisting_not_found[OF a, of w]
  show "fst (setupExisting e cfg n w) = Inl (Error (''PR #'' @ show_nat n @ '' not found''))"
    by (simp add: c)
  show "steps_of w (snd (setupExisting e cfg n w)) = [GetPR (repoName cfg) n]"
    by (simp add: c steps_of_def)
next
  assume a: "getPR_result e (repoName cfg) n = None
         \<or> (\<exists>p. getPR_result e (repoName cfg) n = Some p \<and> clonePathOf e cfg (number p) \<in> dirs w)"
  then have "(\<forall>a \<in> set (steps_of w (snd (setupExisting e cfg n w))). \<not> provisioning a)
          \<and> dirs (snd (setupExisting e cfg n w)) = dirs w
          \<and> sessions (snd (setupExisting e cfg n w)) = sessions w"
  proof
    assume "getPR_result e (repoName cfg) n = None"
    from setupExisting_not_found[OF this, of w] show ?thesis
      by (simp add: steps_of_def)
  next
    assume "\<exists>p. getPR_result e (repoName cfg) n = Some p \<and> clonePathOf e cfg (number p) \<in> dirs w"
    then obtain p where "getPR_result e (repoName cfg) n = Some p"
      and "clonePathOf e cfg (number p) \<in> dirs w" by blast
    from setupExisting_conflict[OF this] show ?thesis
      by (simp add: steps_of_def)
  qed
  then show "\<forall>a \<in> set (steps_of w (snd (setupExisting e cfg n w))). \<not> provisioning a"
    and "dirs (snd (setupExisting e cfg n w)) = dirs w"
    and "sessions (snd (setupExisting e cfg n w)) = sessions w"
    by blast+
qed

theorem setupExisting_no_destructive_action_witness:
  "fst (setupExisting (no_failures (\<lambda>r n. if n = 11 then Some (example_pr 11 ''feature/x'') else None))
          example_config 11
          \<lparr> sessions = {}, dirs = {''/clones'', ''/clones/pr-11''}, trace = [] \<rparr>)
     = Inl (Error ''Clone already exists at /clones/pr-11'')
   \<and> steps_of \<lparr> sessions = {}, dirs = {''/clones'', ''/clones/pr-11''}, trace = [] \<rparr>
       (snd (setupExisting (no_failures (\<lambda>r n. if n = 11 then Some (example_pr 11 ''feature/x'') else None))
          example_config 11
          \<lparr> sessions = {}, dirs = {''/clones'', ''/clones/pr-11''}, trace = [] \<rparr>))
     = [GetPR ''o/a'' 11, ExistsSync ''/clones/pr-11'']
   \<and> dirs (snd (setupExisting (no_failures (\<lambda>r n. if n = 11 then Some (example_pr 11 ''feature/x'') else None))
          example_config 11
          \<lparr> sessions = {}, dirs = {''/clones'', ''/clones/pr-11''}, trace = [] \<rparr>))
     = {''/clones'', ''/clones/pr-11''}
   \<and> fst (setupExisting (no_failures (\<lambda>r n. if n = 11 then Some (example_pr 11 ''feature/x'') else None))
          example_config 12
          \<lparr> sessions = {}, dirs = {''/clones'', ''/clones/pr-12''}, trace = [] \<rparr>)
     = Inl (Error ''PR #12 not found'')"
proof -
  define e where "e = no_failures (\<lambda>r n. if n = 11 then Some (example_pr 11 ''feature/x'') else None)"
  define w where "w = \<lparr> sessions = {}, dirs = {''/clones'', ''/clones/pr-11''}, trace = [] \<rparr>"
  define w' where "w' = \<lparr> sessions = {}, dirs = {''/clones'', ''/clones/pr-12''}, trace = [] \<rparr>"
  have n: "show_nat 11 = ''11''" "show_nat 12 = ''12''"
    by (simp_all add: show_nat.simps digit_char_def)
  have p: "clonePathOf e example_config 11 = ''/clones/pr-11''" "repoName example_config = ''o/a''"
    by (simp_all add: clonePathOf_def e_def no_failures_def example_config_def n)
  have g: "getPR_result e (repoName example_config) 11 = Some (example_pr 11 ''feature/x'')
           \<and> clonePathOf e example_config (number (example_pr 11 ''feature/x'')) \<in> dirs w"
    by (simp add: e_def no_failures_def example_pr_def w_def clonePathOf_def example_config_def n)
  have g': "getPR_result e (repoName example_config) 12 = None"
    by (simp add: e_def no_failures_def)
  have k: "number (example_pr 11 ''feature/x'') = 11" by (simp add: example_pr_def)
  note h = setupExisting_no_destructive_action[of e example_config 11 w]
  from h g have "fst (setupExisting e example_config 11 w)
              = Inl (Error (''Clone already exists at ''
                   @ clonePathOf e example_config (number (example_pr 11 ''feature/x''))))"
    and "steps_of w (snd (setupExisting e example_config 11 w))
              = [GetPR (repoName example_config) 11,
                 ExistsSync (clonePathOf e example_config (number (example_pr 11 ''feature/x'')))]"
    by blast+
  then have a: "fst (setupExisting e example_config 11 w)
              = Inl (Error (''Clone already exists at '' @ clonePathOf e example_config 11))"
    and b: "steps_of w (snd (setupExisting e example_config 11 w))
              = [GetPR (repoName example_config) 11, ExistsSync (clonePathOf e example_config 11)]"
    by (simp_all only: k)
  from h g have c: "dirs (snd (setupExisting e example_config 11 w)) = dirs w"
    by blast
  from setupExisting_no_destructive_action[of e example_config 12 w'] g'
  have d: "fst (setupExisting e example_config 12 w') = Inl (Error (''PR #'' @ show_nat 12 @ '' not found''))"
    by blast
  have "dirs w = {''/clones'', ''/clones/pr-11''}" by (simp add: w_def)
  with a[unfolded p] b[unfolded p] c d[unfolded n] show ?thesis
    unfolding e_def w_def w'_def by simp
qed

section \<open>Properties of the caches\<close>

lemma settle_task_fields:
  "task_key (settle_task i r t) = task_key t"
  "task_id (settle_task i r t) = task_id t"
  by (simp_all add: settle_task_def)

lemma mark_handled_fields:
  "task_key (mark_handled i t) = task_key t"
  "task_id (mark_handled i t) = task_id t"
  by (simp_all add: mark_handled_def)

lemma keys_settle: "map task_key (map (settle_task i r) ts) = map task_key ts"
  by (simp add: settle_task_fields)

lemma ids_settle: "map task_id (map (settle_task i r) ts) = map task_id ts"
  by (simp add: settle_task_fields)

lemma keys_handled: "map task_key (map (mark_handled i) ts) = map task_key ts"
  by (simp add: mark_handled_fields)

lemma ids_handled: "map task_id (map (mark_handled i) ts) = map task_id ts"
  by (simp add: mark_handled_fields)

lemma list_all_ids:
  "list_all (\<lambda>t. task_id t < n) ts = (\<forall>i \<in> set (map task_id ts). i < n)"
  by (induction ts) simp_all

lemma find_task_mem: "find (\<lambda>t. task_id t = i) ts = Some t \<Longrightarrow> t \<in> set ts \<and> task_id t = i"
  by (induction ts) (auto split: if_splits)

lemma filter_other_ids:
  assumes "distinct (map task_id ts)" and "t \<in> set ts"
  shows "filter (\<lambda>x. task_id x \<noteq> task_id t) ts = filter (\<lambda>x. x \<noteq> t) ts"
proof (rule filter_cong[OF refl])
  fix x assume "x \<in> set ts"
  with assms show "(task_id x \<noteq> task_id t) = (x \<noteq> t)"
    by (auto simp: distinct_map dest: inj_onD)
qed

lemma keys_after_removal:
  assumes "distinct (map task_key ts)" and "distinct (map task_id ts)" and "t \<in> set ts"
  shows "set (map task_key (filter (\<lambda>x. task_id x \<noteq> task_id t) ts))
         = set (map task_key ts) - {task_key t}"
proof -
  have i: "inj_on task_key (set ts)"
    using assms(1) by (simp add: distinct_map)
  have "set (filter (\<lambda>x. x \<noteq> t) ts) = set ts - {t}" by auto
  then have "task_key ` set (filter (\<lambda>x. x \<noteq> t) ts) = task_key ` (set ts - {t})" by simp
  also have "\<dots> = task_key ` set ts - {task_key t}"
    using i assms(3) by (auto dest: inj_onD)
  finally show ?thesis
    unfolding filter_other_ids[OF assms(2,3)] by simp
qed

lemma distinct_filter_map:
  "distinct (map f xs) \<Longrightarrow> distinct (map f (filter P xs))"
  by (induction xs) auto

lemma at_most_one_per_key:
  "distinct (map f xs) \<Longrightarrow> length (filter (\<lambda>x. f x = k) xs) \<le> 1"
proof (induction xs)
  case Nil
  then show ?case by simp
next
  case (Cons a xs)
  show ?case
  proof (cases "f a = k")
    case True
    from Cons.prems have n: "f a \<notin> f ` set xs" by simp
    have "f x \<noteq> k" if "x \<in> set xs" for x
    proof
      assume "f x = k"
      with True have "f a = f x" by simp
      from image_eqI[where f = f and x = x and A = "set xs", OF this that] n show False by simp
    qed
    then have "\<forall>x \<in> set xs. f x \<noteq> k" by blast
    then have "filter (\<lambda>x. f x = k) xs = []" by (simp add: filter_empty_conv)
    with True show ?thesis by simp
  next
    case False
    with Cons show ?thesis by simp
  qed
qed

lemma pr_inv_init: "pr_inv pr_cache_init"
  by (simp add: pr_inv_def pr_cache_init_def)

lemma pr_inv_cache_update: "pr_inv s \<Longrightarrow> pr_inv (s\<lparr> cache := c \<rparr>)"
  by (simp add: pr_inv_def)

lemma pr_inv_start:
  assumes "pr_inv s" and "updateInProgress s u = None"
  shows "pr_inv (pr_start k rn u s)"
proof -
  from assms have n: "u \<notin> set (map task_key (tasks s))"
    unfolding pr_inv_def by (metis domIff)
  from assms(1) have l: "\<forall>i \<in> set (map task_id (tasks s)). i < next_id s"
    unfolding pr_inv_def list_all_ids by blast
  then have f: "next_id s \<notin> set (map task_id (tasks s))" by blast
  have l': "\<forall>i \<in> set (map task_id (tasks s)). i < Suc (next_id s)"
    using l by auto
  show ?thesis
    using assms(1) n f l'
    unfolding pr_inv_def pr_start_def list_all_ids by auto
qed

lemma pr_inv_refresh: "pr_inv s \<Longrightarrow> pr_inv (snd (pr_refresh rn u s))"
  by (cases "updateInProgress s u") (simp_all add: pr_refresh_def pr_inv_start)

lemma pr_inv_trigger: "pr_inv s \<Longrightarrow> pr_inv (pr_triggerBackgroundUpdate rn u s)"
  by (cases "updateInProgress s u") (simp_all add: pr_triggerBackgroundUpdate_def pr_inv_start)

lemma pr_inv_get: "pr_inv s \<Longrightarrow> pr_inv (snd (pr_get rn u now s))"
  by (cases "cache s u"; cases "updateInProgress s u")
     (simp_all add: pr_get_def pr_inv_refresh pr_inv_trigger pr_inv_cache_update)

lemma pr_inv_invalidate: "pr_inv s \<Longrightarrow> pr_inv (snd (pr_invalidate rn u s))"
  unfolding pr_invalidate_def by (intro pr_inv_refresh pr_inv_cache_update)

lemma pr_inv_settle: "pr_inv s \<Longrightarrow> pr_inv (s\<lparr> tasks := map (settle_task i r) (tasks s) \<rparr>)"
  unfolding pr_inv_def list_all_ids
  by (simp add: comp_def settle_task_fields)

lemma pr_inv_handled: "pr_inv s \<Longrightarrow> pr_inv (s\<lparr> tasks := map (mark_handled i) (tasks s) \<rparr>)"
  unfolding pr_inv_def list_all_ids
  by (simp add: comp_def mark_handled_fields)

lemma pr_inv_finally:
  assumes "pr_inv s" and "t \<in> set (tasks s)"
  shows "pr_inv (pr_finally t s)"
proof -
  from assms(1) have d: "distinct (map task_key (tasks s))" "distinct (map task_id (tasks s))"
    and l: "\<forall>i \<in> set (map task_id (tasks s)). i < next_id s"
    and m: "dom (updateInProgress s) = set (map task_key (tasks s))"
    unfolding pr_inv_def list_all_ids by blast+
  have "dom ((updateInProgress s)(task_key t := None)) = set (map task_key (tasks s)) - {task_key t}"
    using m by auto
  then have "dom ((updateInProgress s)(task_key t := None))
             = set (map task_key (filter (\<lambda>x. task_id x \<noteq> task_id t) (tasks s)))"
    using keys_after_removal[OF d assms(2)] by simp
  moreover have "\<forall>i \<in> set (map task_id (filter (\<lambda>x. task_id x \<noteq> task_id t) (tasks s))). i < next_id s"
    using l by auto
  ultimately show ?thesis
    using d unfolding pr_inv_def pr_finally_def list_all_ids
    by (simp add: distinct_filter_map)
qed

lemma pr_inv_continue: "pr_inv s \<Longrightarrow> pr_inv (pr_continue i now s)"
proof -
  assume inv: "pr_inv s"
  show ?thesis
  proof (cases "find (\<lambda>t. task_id t = i) (tasks s)")
    case None
    then show ?thesis using inv by (simp add: pr_continue_def)
  next
    case (Some t)
    then have t: "t \<in> set (tasks s)" using find_task_mem by fastforce
    have t': "t \<in> set (tasks (s\<lparr> cache := c \<rparr>))" for c using t by simp
    show ?thesis
    proof (cases "task_phase t")
      case Fetching
      then show ?thesis using Some inv by (simp add: pr_continue_def)
    next
      case Handled
      then show ?thesis using Some inv t by (simp add: pr_continue_def pr_inv_finally)
    next
      case (Settled r)
      show ?thesis
      proof (cases "task_kind t")
        case Blocking
        then show ?thesis
          using Some Settled inv t t'
          by (cases r) (simp_all add: pr_continue_def pr_inv_finally pr_inv_cache_update)
      next
        case Background
        have "pr_inv (s\<lparr> cache := c, tasks := map (mark_handled i) (tasks s) \<rparr>)" for c
          using pr_inv_handled[OF pr_inv_cache_update[OF inv, of c], of i] by simp
        then show ?thesis
          using Some Settled Background inv
          by (cases r) (simp_all add: pr_continue_def pr_inv_handled)
      qed
    qed
  qed
qed

lemma pr_inv_step: "pr_inv s \<Longrightarrow> pr_inv (pr_step rn ev s)"
  by (cases ev)
     (simp_all add: pr_inv_get pr_inv_refresh pr_inv_invalidate pr_inv_cache_update
        pr_inv_settle pr_inv_continue split: option.splits)

lemma pr_inv_run: "pr_inv s \<Longrightarrow> pr_inv (pr_run rn evs s)"
  unfolding pr_run_def by (induction evs arbitrary: s) (simp_all add: pr_inv_step)

lemma pr_reachable_inv: "pr_inv (pr_run rn evs pr_cache_init)"
  by (rule pr_inv_run[OF pr_inv_init])

lemma pr_single_flight: "pr_inv s \<Longrightarrow> length (pr_in_flight s u) \<le> 1"
  unfolding pr_inv_def pr_in_flight_def by (intro at_most_one_per_key) simp

lemma pr_run_append: "pr_run rn (a @ b) s = pr_run rn b (pr_run rn a s)"
  by (simp add: pr_run_def)

lemma pr_get_fresh:
  assumes "pr_fresh s u now"
  shows "\<exists>entry. cache s u = Some entry
           \<and> pr_get rn u now s
               = (Now (data entry),
                  s\<lparr> cache := (cache s)(u \<mapsto> entry\<lparr> lastInteraction := now \<rparr>) \<rparr>)"
  using assms by (cases "cache s u") (simp_all add: pr_fresh_def pr_get_def)

lemma pr_get_while_updating:
  assumes "updateInProgress s u = Some p"
  shows "issued (snd (pr_get rn u now s)) = issued s"
    and "updateInProgress (snd (pr_get rn u now s)) u = Some p"
  using assms by (cases "cache s u"; simp add: pr_get_def)+

lemma pr_get_idle:
  assumes "updateInProgress s u = None"
  shows "issued (snd (pr_get rn u now s)) = issued s
         \<or> (issued (snd (pr_get rn u now s))
               = issued s @ [(rn, \<lparr> opt_author = Some u, opt_state = Some ''open'' \<rparr>)]
            \<and> updateInProgress (snd (pr_get rn u now s)) u \<noteq> None)"
  using assms
  by (cases "cache s u")
     (simp_all add: pr_get_def pr_refresh_def pr_triggerBackgroundUpdate_def pr_start_def)

lemma pr_burst_while_updating:
  "updateInProgress s u = Some p \<Longrightarrow> issued (pr_run rn (map (Get u) ts) s) = issued s"
proof (induction ts arbitrary: s)
  case Nil
  then show ?case by (simp add: pr_run_def)
next
  case (Cons t ts)
  from Cons.IH[OF pr_get_while_updating(2)[OF Cons.prems, of rn t]]
    pr_get_while_updating(1)[OF Cons.prems, of rn t]
  show ?case by (simp add: pr_run_def)
qed

lemma pr_burst:
  "pr_issued_for (pr_run rn (map (Get u) ts) s) u \<le> pr_issued_for s u + 1"
proof (induction ts arbitrary: s)
  case Nil
  then show ?case by (simp add: pr_run_def)
next
  case (Cons t ts)
  define s' where "s' = snd (pr_get rn u t s)"
  have r: "pr_run rn (map (Get u) (t # ts)) s = pr_run rn (map (Get u) ts) s'"
    by (simp add: pr_run_def s'_def)
  show ?case
  proof (cases "updateInProgress s u")
    case (Some p)
    from pr_burst_while_updating[OF Some, of rn "t # ts"] show ?thesis
      by (simp add: pr_issued_for_def)
  next
    case None
    from pr_get_idle[OF None, of rn t] consider
      (same) "issued s' = issued s"
      | (one) "issued s' = issued s @ [(rn, \<lparr> opt_author = Some u, opt_state = Some ''open'' \<rparr>)]"
          "updateInProgress s' u \<noteq> None"
      unfolding s'_def by blast
    then show ?thesis
    proof cases
      case same
      with Cons.IH[of s'] show ?thesis
        unfolding r by (simp add: pr_issued_for_def)
    next
      case one
      from one(2) obtain p where "updateInProgress s' u = Some p" by blast
      from pr_burst_while_updating[OF this, of rn ts] one(1) show ?thesis
        unfolding r by (simp add: pr_issued_for_def)
    qed
  qed
qed

lemma s_run_append: "s_run ttl (a @ b) s = s_run ttl b (s_run ttl a s)"
  by (simp add: s_run_def)

lemma s_inv_init: "s_inv session_cache_init"
  by (simp add: s_inv_def session_cache_init_def)

lemma s_inv_cache_update: "s_inv s \<Longrightarrow> s_inv (s\<lparr> s_cache := c \<rparr>)"
  by (auto simp: s_inv_def)

lemma s_inv_start: "s_inv s \<Longrightarrow> \<not> s_updateInProgress s \<Longrightarrow> s_inv (s_start k s)"
  by (simp add: s_inv_def s_start_def)

lemma s_refresh_cases:
  assumes "s_inv s"
  shows "s_refresh s = (if s_updateInProgress s then (Later (the (s_updatePromise s)), s)
                        else (Later (s_next_id s), s_start Blocking s))"
  using assms by (cases "s_updatePromise s") (auto simp: s_refresh_def s_inv_def)

lemma s_inv_refresh: "s_inv s \<Longrightarrow> s_inv (snd (s_refresh s))"
  by (simp add: s_refresh_cases s_inv_start)

lemma s_inv_trigger: "s_inv s \<Longrightarrow> s_inv (s_triggerBackgroundUpdate s)"
  by (simp add: s_triggerBackgroundUpdate_def s_inv_start)

lemma s_get_stale_cases:
  assumes "s_inv s"
  shows "s_get_stale s =
           (if s_updateInProgress s then (Later (the (s_updatePromise s)), s)
            else (case s_cache s of
                    Some entry \<Rightarrow> (Now (s_data entry), s_start Background s)
                  | None \<Rightarrow> (Later (s_next_id s), s_start Blocking s)))"
  using assms
  by (cases "s_updatePromise s"; cases "s_cache s")
     (auto simp: s_get_stale_def s_inv_def s_triggerBackgroundUpdate_def s_refresh_def)

lemma s_inv_get_stale: "s_inv s \<Longrightarrow> s_inv (snd (s_get_stale s))"
  by (cases "s_cache s") (simp_all add: s_get_stale_cases s_inv_start)

lemma s_inv_get: "s_inv s \<Longrightarrow> s_inv (snd (s_get ttl now s))"
  by (cases "s_cache s") (simp_all add: s_get_def s_inv_get_stale)

lemma s_inv_invalidate: "s_inv s \<Longrightarrow> s_inv (snd (s_invalidate s))"
  unfolding s_invalidate_def by (intro s_inv_refresh s_inv_cache_update)

lemma s_inv_settle: "s_inv s \<Longrightarrow> s_inv (s\<lparr> s_tasks := map (settle_task i r) (s_tasks s) \<rparr>)"
  by (auto simp: s_inv_def)

lemma s_inv_store: "s_inv s \<Longrightarrow> s_inv (s_store r now s)"
  by (cases r) (simp_all add: s_store_def s_inv_cache_update)

lemma s_store_tasks: "s_tasks (s_store r now s) = s_tasks s"
  by (cases r) (simp_all add: s_store_def)

lemma s_inv_finally:
  assumes "s_inv s" and "t \<in> set (s_tasks s)"
  shows "s_inv (s_finally t s)"
proof -
  from assms have "s_tasks s = [t]"
    unfolding s_inv_def by (cases "s_tasks s") auto
  then show ?thesis
    by (simp add: s_inv_def s_finally_def)
qed

lemma s_inv_continue: "s_inv s \<Longrightarrow> s_inv (s_continue i now s)"
proof -
  assume inv: "s_inv s"
  show ?thesis
  proof (cases "find (\<lambda>t. task_id t = i) (s_tasks s)")
    case None
    then show ?thesis using inv by (simp add: s_continue_def)
  next
    case (Some t)
    then have t: "t \<in> set (s_tasks s)" using find_task_mem by fastforce
    show ?thesis
    proof (cases "task_phase t")
      case Fetching
      then show ?thesis using Some inv by (simp add: s_continue_def)
    next
      case Handled
      then show ?thesis using Some inv t by (simp add: s_continue_def s_inv_finally)
    next
      case (Settled r)
      show ?thesis
      proof (cases "task_kind t")
        case Blocking
        have "t \<in> set (s_tasks (s_store r now s))" using t by (simp add: s_store_tasks)
        from s_inv_finally[OF s_inv_store[OF inv] this]
        show ?thesis using Some Settled Blocking by (simp add: s_continue_def)
      next
        case Background
        have "s_inv ((s_store r now s)\<lparr> s_tasks := map (mark_handled i) (s_tasks s) \<rparr>)"
          using s_inv_store[OF inv, of r now] by (auto simp: s_inv_def s_store_tasks)
        then show ?thesis using Some Settled Background by (simp add: s_continue_def)
      qed
    qed
  qed
qed

lemma s_inv_step: "s_inv s \<Longrightarrow> s_inv (s_step ttl ev s)"
  by (cases ev)
     (simp_all add: s_inv_get s_inv_refresh s_inv_invalidate s_inv_settle s_inv_continue)

lemma s_inv_run: "s_inv s \<Longrightarrow> s_inv (s_run ttl evs s)"
  unfolding s_run_def by (induction evs arbitrary: s) (simp_all add: s_inv_step)

lemma s_reachable_inv: "s_inv (s_run ttl evs session_cache_init)"
  by (rule s_inv_run[OF s_inv_init])

lemma s_get_fresh:
  assumes "s_fresh ttl s now"
  shows "\<exists>entry. s_cache s = Some entry \<and> s_get ttl now s = (Now (s_data entry), s)"
  using assms by (cases "s_cache s") (simp_all add: s_fresh_def s_get_def)

lemma s_get_while_updating:
  assumes "s_inv s" and "s_updateInProgress s"
  shows "snd (s_get ttl now s) = s"
  using assms by (cases "s_cache s") (simp_all add: s_get_def s_get_stale_cases)

lemma s_get_idle:
  assumes "s_inv s" and "\<not> s_updateInProgress s"
  shows "snd (s_get ttl now s) = s
         \<or> (discoveries (snd (s_get ttl now s)) = discoveries s + 1
            \<and> s_updateInProgress (snd (s_get ttl now s)))"
  using assms by (cases "s_cache s") (simp_all add: s_get_def s_get_stale_cases s_start_def)

lemma s_burst_while_updating:
  "s_inv s \<Longrightarrow> s_updateInProgress s \<Longrightarrow> s_run ttl (map SGet ts) s = s"
  by (induction ts) (simp_all add: s_run_def s_get_while_updating)

lemma s_burst:
  "s_inv s \<Longrightarrow> discoveries (s_run ttl (map SGet ts) s) \<le> discoveries s + 1"
proof (induction ts arbitrary: s)
  case Nil
  then show ?case by (simp add: s_run_def)
next
  case (Cons t ts)
  define s' where "s' = snd (s_get ttl t s)"
  have r: "s_run ttl (map SGet (t # ts)) s = s_run ttl (map SGet ts) s'"
    by (simp add: s_run_def s'_def)
  have inv': "s_inv s'" unfolding s'_def by (rule s_inv_get[OF Cons.prems])
  show ?case
  proof (cases "s_updateInProgress s")
    case True
    from s_burst_while_updating[OF Cons.prems True, of ttl "t # ts"] show ?thesis by simp
  next
    case False
    from s_get_idle[OF Cons.prems False, of ttl t] consider
      (same) "s' = s" | (one) "discoveries s' = discoveries s + 1" "s_updateInProgress s'"
      unfolding s'_def by blast
    then show ?thesis
    proof cases
      case same
      with Cons.IH[OF Cons.prems] show ?thesis unfolding r by simp
    next
      case one
      from s_burst_while_updating[OF inv' one(2), of ttl ts] one(1) show ?thesis
        unfolding r by simp
    qed
  qed
qed

text \<open>
  Claim C2. For every cache key, \<open>get\<close> invoked while the entry is within its TTL
  returns the cached payload itself and issues no refresh call (no listing call, no new
  task). In every state the cache can reach, whatever the calls and however the settling
  of promises and the handlers interleave with them, at most one refresh is in flight for
  a key; and a burst of \<open>get\<close> calls for a key, of any length and at any times, issues at
  most one refresh call for it. All of this holds for the per-user request cache and for
  the session cache.
\<close>

theorem cache_single_flight:
  "(pr_fresh s u now
      \<longrightarrow> (\<exists>entry. cache s u = Some entry \<and> fst (pr_get rn u now s) = Now (data entry))
        \<and> issued (snd (pr_get rn u now s)) = issued s
        \<and> tasks (snd (pr_get rn u now s)) = tasks s)
   \<and> length (pr_in_flight (pr_run rn evs pr_cache_init) u) \<le> 1
   \<and> pr_issued_for (pr_run rn (evs @ map (Get u) ts) pr_cache_init) u
        \<le> pr_issued_for (pr_run rn evs pr_cache_init) u + 1
   \<and> (s_fresh ttl c now'
      \<longrightarrow> (\<exists>entry. s_cache c = Some entry \<and> fst (s_get ttl now' c) = Now (s_data entry))
        \<and> snd (s_get ttl now' c) = c)
   \<and> length (s_tasks (s_run ttl sevs session_cache_init)) \<le> 1
   \<and> discoveries (s_run ttl (sevs @ map SGet ts') session_cache_init)
        \<le> discoveries (s_run ttl sevs session_cache_init) + 1"
proof (intro conjI impI)
  assume "pr_fresh s u now"
  from pr_get_fresh[OF this, of rn] obtain entry where
    e: "cache s u = Some entry"
    and g: "pr_get rn u now s
            = (Now (data entry), s\<lparr> cache := (cache s)(u \<mapsto> entry\<lparr> lastInteraction := now \<rparr>) \<rparr>)"
    by blast
  show "\<exists>entry. cache s u = Some entry \<and> fst (pr_get rn u now s) = Now (data entry)"
    using e g by simp
  show "issued (snd (pr_get rn u now s)) = issued s" using g by simp
  show "tasks (snd (pr_get rn u now s)) = tasks s" using g by simp
next
  show "length (pr_in_flight (pr_run rn evs pr_cache_init) u) \<le> 1"
    by (rule pr_single_flight[OF pr_reachable_inv])
next
  show "pr_issued_for (pr_run rn (evs @ map (Get u) ts) pr_cache_init) u
        \<le> pr_issued_for (pr_run rn evs pr_cache_init) u + 1"
    unfolding pr_run_append by (rule pr_burst)
next
  assume "s_fresh ttl c now'"
  from s_get_fresh[OF this] obtain entry where
    "s_cache c = Some entry" "s_get ttl now' c = (Now (s_data entry), c)" by blast
  then show "\<exists>entry. s_cache c = Some entry \<and> fst (s_get ttl now' c) = Now (s_data entry)"
    and "snd (s_get ttl now' c) = c"
    by simp_all
next
  show "length (s_tasks (s_run ttl sevs session_cache_init)) \<le> 1"
    using s_reachable_inv[of ttl sevs] by (simp add: s_inv_def)
next
  show "discoveries (s_run ttl (sevs @ map SGet ts') session_cache_init)
        \<le> discoveries (s_run ttl sevs session_cache_init) + 1"
    unfolding s_run_append by (rule s_burst[OF s_reachable_inv])
qed

lemma example_pr_run:
  "pr_run ''o/a'' [Get ''alice'' 0, Settle 0 (Inr [example_pr 11 ''feature/x'']), Continue 0 1000]
     pr_cache_init
   = \<lparr> cache = [''alice'' \<mapsto> \<lparr> data = [example_pr 11 ''feature/x''], timestamp = 1000,
                                lastInteraction = 1000 \<rparr>],
       updateInProgress = Map.empty, tasks = [],
       issued = [(''o/a'', \<lparr> opt_author = Some ''alice'', opt_state = Some ''open'' \<rparr>)],
       next_id = 1 \<rparr>"
  by (simp add: pr_run_def pr_cache_init_def pr_get_def pr_refresh_def pr_start_def
      settle_task_def pr_continue_def pr_finally_def)

lemma example_pr_burst:
  "pr_run ''o/a'' (map (Get ''alice'') (replicate 10 4000000))
     \<lparr> cache = [''alice'' \<mapsto> \<lparr> data = [example_pr 11 ''feature/x''], timestamp = 1000,
                                lastInteraction = 1000 \<rparr>],
       updateInProgress = Map.empty, tasks = [],
       issued = [(''o/a'', \<lparr> opt_author = Some ''alice'', opt_state = Some ''open'' \<rparr>)],
       next_id = 1 \<rparr>
   = \<lparr> cache = [''alice'' \<mapsto> \<lparr> data = [example_pr 11 ''feature/x''], timestamp = 1000,
                                lastInteraction = 1000 \<rparr>],
       updateInProgress = [''alice'' \<mapsto> 1],
       tasks = [\<lparr> task_id = 1, task_key = ''alice'', task_kind = Background, task_phase = Fetching \<rparr>],
       issued = [(''o/a'', \<lparr> opt_author = Some ''alice'', opt_state = Some ''open'' \<rparr>),
                 (''o/a'', \<lparr> opt_author = Some ''alice'', opt_state = Some ''open'' \<rparr>)],
       next_id = 2 \<rparr>"
  by (simp add: pr_run_def pr_get_def pr_triggerBackgroundUpdate_def pr_start_def ttlMs_def
      numeral_eq_Suc)

lemma example_s_run:
  "s_run 30000 [SGet 0, SSettle 0 (Inr []), SContinue 0 500] session_cache_init
   = \<lparr> s_cache = Some \<lparr> s_data = [], s_timestamp = 500 \<rparr>, s_updateInProgress = False,
       s_updatePromise = None, s_tasks = [], discoveries = 1, s_next_id = 1 \<rparr>"
  by (simp add: s_run_def session_cache_init_def s_get_def s_get_stale_def s_refresh_def
      s_start_def settle_task_def s_continue_def s_finally_def s_store_def)

lemma example_s_burst:
  "s_run 30000 (map SGet (replicate 10 40000))
     \<lparr> s_cache = Some \<lparr> s_data = [], s_timestamp = 500 \<rparr>, s_updateInProgress = False,
       s_updatePromise = None, s_tasks = [], discoveries = 1, s_next_id = 1 \<rparr>
   = \<lparr> s_cache = Some \<lparr> s_data = [], s_timestamp = 500 \<rparr>, s_updateInProgress = True,
       s_updatePromise = Some 1,
       s_tasks = [\<lparr> task_id = 1, task_key = (), task_kind = Background, task_phase = Fetching \<rparr>],
       discoveries = 2, s_next_id = 2 \<rparr>"
  by (simp add: s_run_def s_get_def s_get_stale_def s_triggerBackgroundUpdate_def s_start_def
      numeral_eq_Suc)

theorem cache_single_flight_witness:
  "pr_fresh (pr_run ''o/a'' [Get ''alice'' 0, Settle 0 (Inr [example_pr 11 ''feature/x'']),
                             Continue 0 1000] pr_cache_init) ''alice'' 2000
   \<and> fst (pr_get ''o/a'' ''alice'' 2000
            (pr_run ''o/a'' [Get ''alice'' 0, Settle 0 (Inr [example_pr 11 ''feature/x'']),
                             Continue 0 1000] pr_cache_init))
       = Now [example_pr 11 ''feature/x'']
   \<and> length (issued (snd (pr_get ''o/a'' ''alice'' 2000
            (pr_run ''o/a'' [Get ''alice'' 0, Settle 0 (Inr [example_pr 11 ''feature/x'']),
                             Continue 0 1000] pr_cache_init)))) = 1
   \<and> pr_issued_for
        (pr_run ''o/a'' ([Get ''alice'' 0, Settle 0 (Inr [example_pr 11 ''feature/x'']),
                          Continue 0 1000] @ map (Get ''alice'') (replicate 10 4000000))
           pr_cache_init) ''alice'' = 2
   \<and> length (pr_in_flight
        (pr_run ''o/a'' ([Get ''alice'' 0, Settle 0 (Inr [example_pr 11 ''feature/x'']),
                          Continue 0 1000] @ map (Get ''alice'') (replicate 10 4000000))
           pr_cache_init) ''alice'') = 1
   \<and> s_fresh 30000 (s_run 30000 [SGet 0, SSettle 0 (Inr []), SContinue 0 500] session_cache_init) 1000
   \<and> snd (s_get 30000 1000 (s_run 30000 [SGet 0, SSettle 0 (Inr []), SContinue 0 500] session_cache_init))
       = s_run 30000 [SGet 0, SSettle 0 (Inr []), SContinue 0 500] session_cache_init
   \<and> discoveries
        (s_run 30000 ([SGet 0, SSettle 0 (Inr []), SContinue 0 500] @ map SGet (replicate 10 40000))
           session_cache_init) = 2
   \<and> length (s_tasks
        (s_run 30000 ([SGet 0, SSettle 0 (Inr []), SContinue 0 500] @ map SGet (replicate 10 40000))
           session_cache_init)) = 1"
proof -
  define evs where "evs = [Get ''alice'' 0, Settle 0 (Inr [example_pr 11 ''feature/x'']), Continue 0 1000]"
  define sevs where "sevs = [SGet 0, SSettle 0 (Inr []), SContinue 0 500]"
  define s where "s = pr_run ''o/a'' evs pr_cache_init"
  define c where "c = s_run 30000 sevs session_cache_init"
  define s' where "s' = pr_run ''o/a'' (evs @ map (Get ''alice'') (replicate 10 4000000)) pr_cache_init"
  define c' where "c' = s_run 30000 (sevs @ map SGet (replicate 10 40000)) session_cache_init"
  note r = example_pr_run[folded evs_def, folded s_def]
  note q = example_s_run[folded sevs_def, folded c_def]
  have f: "pr_fresh s ''alice'' 2000"
    unfolding r by (simp add: pr_fresh_def ttlMs_def)
  have g: "s_fresh 30000 c 1000"
    unfolding q by (simp add: s_fresh_def)
  have i: "length (issued s) = 1" "pr_issued_for s ''alice'' = 1"
    unfolding r by (simp_all add: pr_issued_for_def)
  have d: "discoveries c = 1"
    unfolding q by simp
  have s'_eq: "s' = pr_run ''o/a'' (map (Get ''alice'') (replicate 10 4000000)) s"
    unfolding s'_def s_def by (rule pr_run_append)
  have c'_eq: "c' = s_run 30000 (map SGet (replicate 10 40000)) c"
    unfolding c'_def c_def by (rule s_run_append)
  have two: "2 \<le> pr_issued_for s' ''alice''" "1 \<le> length (pr_in_flight s' ''alice'')"
    unfolding s'_eq r example_pr_burst by (simp_all add: pr_issued_for_def pr_in_flight_def)
  have two': "2 \<le> discoveries c'" "1 \<le> length (s_tasks c')"
    unfolding c'_eq q example_s_burst by simp_all
  note h = cache_single_flight[of s "''alice''" 2000 "''o/a''" evs "replicate 10 4000000"
      30000 c 1000 sevs "replicate 10 40000"]
  from h f obtain entry where e: "cache s ''alice'' = Some entry"
    and a1: "fst (pr_get ''o/a'' ''alice'' 2000 s) = Now (data entry)"
    and a2: "issued (snd (pr_get ''o/a'' ''alice'' 2000 s)) = issued s"
    by blast
  from e have "data entry = [example_pr 11 ''feature/x'']"
    unfolding r by auto
  with a1 have b1: "fst (pr_get ''o/a'' ''alice'' 2000 s) = Now [example_pr 11 ''feature/x'']"
    by simp
  from a2 i(1) have b2: "length (issued (snd (pr_get ''o/a'' ''alice'' 2000 s))) = 1"
    by simp
  from h have "pr_issued_for s' ''alice'' \<le> pr_issued_for s ''alice'' + 1"
    unfolding s'_def s_def by blast
  with i(2) two(1) have b3: "pr_issued_for s' ''alice'' = 2" by simp
  note h' = cache_single_flight[of s "''alice''" 2000 "''o/a''"
      "evs @ map (Get ''alice'') (replicate 10 4000000)" "[]"
      30000 c 1000 "sevs @ map SGet (replicate 10 40000)" "[]"]
  from h' have "length (pr_in_flight s' ''alice'') \<le> 1"
    unfolding s'_def by blast
  with two(2) have b4: "length (pr_in_flight s' ''alice'') = 1" by simp
  from h g have b5: "snd (s_get 30000 1000 c) = c" by blast
  from h have "discoveries c' \<le> discoveries c + 1"
    unfolding c'_def c_def by blast
  with d two'(1) have b6: "discoveries c' = 2" by simp
  from h' have "length (s_tasks c') \<le> 1"
    unfolding c'_def by blast
  with two'(2) have b7: "length (s_tasks c') = 1" by simp
  from f b1 b2 b3 b4 g b5 b6 b7 show ?thesis
    unfolding s'_def c'_def s_def c_def evs_def sevs_def by blast
qed

end
